theory Spec2Isabelle
  imports Complex_Main "HOL-Library.Word" "HOL-Library.AList"
begin

section \<open>Data model (types.ts)\<close>

text \<open>
  A JavaScript string is a sequence of 16-bit code units; \<open>length\<close>, \<open>substring\<close>,
  \<open>trim\<close> and the regular expression engine (without the \<open>u\<close> flag) all work on code
  units.  \<open>ascii\<close> writes a literal of the source as such a sequence.
\<close>

type_synonym jsstring = "16 word list"

definition ascii :: "string \<Rightarrow> jsstring" where
  "ascii s = map (\<lambda>c. of_nat (of_char c)) s"

text \<open>The two braces, which the insight pattern and JSON text share.\<close>

definition LBRACE :: "16 word" where "LBRACE = 0x7B"
definition RBRACE :: "16 word" where "RBRACE = 0x7D"

text \<open>
  \<open>Number.prototype.toString\<close> on an instant: the decimal digits of an integer (every
  instant of a \<open>Date\<close> is below \<open>10^21\<close>, where the exponent notation would start).
\<close>

fun digits :: "nat \<Rightarrow> jsstring" where
  "digits n =
     (if n < 10 then [0x30 + of_nat n] else digits (n div 10) @ [0x30 + of_nat (n mod 10)])"

definition number_toString :: "int \<Rightarrow> jsstring" where
  "number_toString i = (if i < 0 then 0x2D # digits (nat (- i)) else digits (nat i))"

datatype Role = User | Model

text \<open>\<open>interface GroundingSource { title?: string; uri?: string }\<close>\<close>

record GroundingSource =
  g_title :: "jsstring option"
  g_uri :: "jsstring option"

text \<open>
  \<open>interface Message\<close>.  An optional field that is absent (or \<open>undefined\<close>) is \<open>None\<close>.
  The numbers of this model are instants read from \<open>Date.now()\<close>, which are integers.
\<close>

record Message =
  m_id :: jsstring
  m_role :: Role
  m_text :: jsstring
  m_timestamp :: int
  m_audioUrl :: "jsstring option"
  m_imageUrl :: "jsstring option"
  m_psychAnalysis :: "jsstring option"
  m_language :: "jsstring option"
  m_groundingSources :: "GroundingSource list option"

record ChatSession =
  s_id :: jsstring
  s_title :: jsstring
  s_messages :: "Message list"
  s_createdAt :: int

text \<open>
  \<open>interface UserSettings\<close>.  The two levels are fractions; the model keeps their exact
  values.
\<close>

datatype Theme = Light | Dark

record UserSettings =
  theme :: Theme
  volume :: real
  playbackSpeed :: real

section \<open>Persistent store (services/storage.ts)\<close>

text \<open>
  \<open>localStorage\<close> holds strings under string keys, in the order they were first written.
  Two failures of the platform are part of the model: a document that may not use storage
  at all (every access throws a \<open>SecurityError\<close>), and an origin whose quota is used up
  (\<open>setItem\<close> throws a \<open>QuotaExceededError\<close>).  \<open>JSON.parse\<close> throws a \<open>SyntaxError\<close> on
  text that is not JSON, and \<open>JSON.stringify\<close> a \<open>TypeError\<close> on a value it cannot write.
\<close>

datatype js_error = SecurityError | QuotaExceededError | SyntaxError | TypeError

record LocalStorage =
  items :: "(jsstring \<times> jsstring) list"
  denied :: bool
  quota :: nat

definition used :: "(jsstring \<times> jsstring) list \<Rightarrow> nat" where
  "used kvs = sum_list (map (\<lambda>(k, v). length k + length v) kvs)"

definition getItem :: "LocalStorage \<Rightarrow> jsstring \<Rightarrow> js_error + jsstring option" where
  "getItem ls key = (if denied ls then Inl SecurityError else Inr (map_of (items ls) key))"

definition setItem :: "LocalStorage \<Rightarrow> jsstring \<Rightarrow> jsstring \<Rightarrow> js_error + LocalStorage" where
  "setItem ls key v =
     (if denied ls then Inl SecurityError
      else if quota ls < used (AList.update key v (items ls)) then Inl QuotaExceededError
      else Inr (ls\<lparr>items := AList.update key v (items ls)\<rparr>))"


definition SESSIONS_KEY :: jsstring where "SESSIONS_KEY = ascii ''mini_ai_sessions''"
definition ACTIVE_ID_KEY :: jsstring where "ACTIVE_ID_KEY = ascii ''mini_ai_active_id''"
definition SETTINGS_KEY :: jsstring where "SETTINGS_KEY = ascii ''mini_ai_settings''"

text \<open>
  The operations of \<open>storageService\<close>.  \<open>JSON.stringify\<close> and \<open>JSON.parse\<close> belong to the
  platform and are parameters: \<open>stringify\<close> at the type of the value written, \<open>parse\<close> at
  the type the result is cast to (the next section has both for sessions).  Each operation returns \<open>Inl\<close> for an exception that
  leaves it and \<open>Inr\<close> for a normal return; a \<open>catch\<close> block (which only logs to the console)
  is the \<open>Inl\<close> branch of a \<open>case\<close>.  A save returns the storage it leaves behind.
\<close>

definition saveSessions ::
  "(ChatSession list \<Rightarrow> js_error + jsstring) \<Rightarrow> LocalStorage \<Rightarrow> ChatSession list
     \<Rightarrow> js_error + LocalStorage" where
  "saveSessions stringify ls sessions =
     (case (case stringify sessions of
              Inl e \<Rightarrow> Inl e
            | Inr text \<Rightarrow> setItem ls SESSIONS_KEY text) of
        Inl e \<Rightarrow> Inr ls
      | Inr ls' \<Rightarrow> Inr ls')"

text \<open>\<open>saved ? JSON.parse(saved) : []\<close>: \<open>null\<close> and the empty string are falsy.\<close>

definition getSessions ::
  "(jsstring \<Rightarrow> js_error + ChatSession list) \<Rightarrow> LocalStorage \<Rightarrow> js_error + ChatSession list" where
  "getSessions parse ls =
     (case (case getItem ls SESSIONS_KEY of
              Inl e \<Rightarrow> Inl e
            | Inr saved \<Rightarrow>
                (case saved of
                   None \<Rightarrow> Inr []
                 | Some text \<Rightarrow> if text = [] then Inr [] else parse text)) of
        Inl e \<Rightarrow> Inr []
      | Inr sessions \<Rightarrow> Inr sessions)"


text \<open>\<open>return localStorage.getItem(ACTIVE_ID_KEY)\<close>, with no \<open>try\<close> around it.\<close>

definition getActiveSessionId :: "LocalStorage \<Rightarrow> js_error + jsstring option" where
  "getActiveSessionId ls = getItem ls ACTIVE_ID_KEY"


text \<open>
  \<open>saved ? JSON.parse(saved) : null\<close>.  The parsed value may itself be \<open>null\<close> (the text
  \<open>null\<close> is JSON), hence the option in the type of \<open>parse\<close>.
\<close>

definition getSettings ::
  "(jsstring \<Rightarrow> js_error + UserSettings option) \<Rightarrow> LocalStorage
     \<Rightarrow> js_error + UserSettings option" where
  "getSettings parse ls =
     (case (case getItem ls SETTINGS_KEY of
              Inl e \<Rightarrow> Inl e
            | Inr saved \<Rightarrow>
                (case saved of
                   None \<Rightarrow> Inr None
                 | Some text \<Rightarrow> if text = [] then Inr None else parse text)) of
        Inl e \<Rightarrow> Inr None
      | Inr settings \<Rightarrow> Inr settings)"

section \<open>JSON text (the platform's JSON.stringify and JSON.parse)\<close>

text \<open>
  The values that the store writes are plain data: strings, numbers, arrays and objects.
  An object is the list of its properties in the order of their creation.  The numbers
  are the integers of this model.
\<close>

datatype json =
    JNull
  | JBool bool
  | JNumber int
  | JString jsstring
  | JArray "json list"
  | JObject "(jsstring \<times> json) list"

definition QUOTE :: "16 word" where "QUOTE = 0x22"
definition BACKSLASH :: "16 word" where "BACKSLASH = 0x5C"
definition COMMA :: "16 word" where "COMMA = 0x2C"
definition COLON :: "16 word" where "COLON = 0x3A"
definition LBRACKET :: "16 word" where "LBRACKET = 0x5B"
definition RBRACKET :: "16 word" where "RBRACKET = 0x5D"

subsection \<open>JSON.stringify\<close>

text \<open>
  \<open>QuoteJSONString\<close>: the quote, the backslash and the control characters are escaped, the
  five usual ones by a letter and the others by \<open>\u\<close> and four lower-case hexadecimal
  digits; so is a surrogate that is not part of a pair.
\<close>

definition hex_digit :: "nat \<Rightarrow> 16 word" where
  "hex_digit k = of_nat (if k < 10 then 48 + k else 87 + k)"

definition unicode_escape :: "16 word \<Rightarrow> jsstring" where
  "unicode_escape c =
     [BACKSLASH, 0x75, hex_digit (unat c div 4096), hex_digit (unat c div 256 mod 16),
      hex_digit (unat c div 16 mod 16), hex_digit (unat c mod 16)]"

definition is_high_surrogate :: "16 word \<Rightarrow> bool" where
  "is_high_surrogate c = (0xD800 \<le> c \<and> c \<le> 0xDBFF)"

definition is_low_surrogate :: "16 word \<Rightarrow> bool" where
  "is_low_surrogate c = (0xDC00 \<le> c \<and> c \<le> 0xDFFF)"

definition escape_unit :: "16 word \<Rightarrow> jsstring" where
  "escape_unit c =
     (if c = 0x08 then [BACKSLASH, 0x62]
      else if c = 0x09 then [BACKSLASH, 0x74]
      else if c = 0x0A then [BACKSLASH, 0x6E]
      else if c = 0x0C then [BACKSLASH, 0x66]
      else if c = 0x0D then [BACKSLASH, 0x72]
      else if c = QUOTE then [BACKSLASH, QUOTE]
      else if c = BACKSLASH then [BACKSLASH, BACKSLASH]
      else if c < 0x20 \<or> is_high_surrogate c \<or> is_low_surrogate c then unicode_escape c
      else [c])"

fun escape :: "jsstring \<Rightarrow> jsstring" where
  "escape [] = []"
| "escape [c] = escape_unit c"
| "escape (c # d # rest) =
     (if is_high_surrogate c \<and> is_low_surrogate d then c # d # escape rest
      else escape_unit c @ escape (d # rest))"

definition QuoteJSONString :: "jsstring \<Rightarrow> jsstring" where
  "QuoteJSONString s = QUOTE # escape s @ [QUOTE]"

text \<open>Without a \<open>space\<close> argument the text has no white space between its tokens.\<close>

fun join_comma :: "jsstring list \<Rightarrow> jsstring" where
  "join_comma [] = []"
| "join_comma [x] = x"
| "join_comma (x # y # rest) = x @ COMMA # join_comma (y # rest)"

fun JSON_stringify :: "json \<Rightarrow> jsstring" where
  "JSON_stringify JNull = ascii ''null''"
| "JSON_stringify (JBool b) = (if b then ascii ''true'' else ascii ''false'')"
| "JSON_stringify (JNumber i) = number_toString i"
| "JSON_stringify (JString s) = QuoteJSONString s"
| "JSON_stringify (JArray xs) = LBRACKET # join_comma (map JSON_stringify xs) @ [RBRACKET]"
| "JSON_stringify (JObject kvs) =
     LBRACE # join_comma (map (\<lambda>(k, v). QuoteJSONString k @ COLON # JSON_stringify v) kvs)
       @ [RBRACE]"

subsection \<open>JSON.parse\<close>

text \<open>
  A recursive descent over the grammar of JSON.  White space (space, tab, line feed,
  carriage return) may surround every token.
\<close>

definition is_ws :: "16 word \<Rightarrow> bool" where
  "is_ws c = (c = 0x20 \<or> c = 0x09 \<or> c = 0x0A \<or> c = 0x0D)"

definition skip_ws :: "jsstring \<Rightarrow> jsstring" where
  "skip_ws s = dropWhile is_ws s"

text \<open>
  The characters of a string, after its opening quote: up to the closing quote, with the
  escapes \<^verbatim>\<open>\" \\ \/ \b \f \n \r \t\<close> and \<^verbatim>\<open>\uXXXX\<close> (digits of either case)
  decoded and a raw control character rejected.
\<close>

definition unhex :: "16 word \<Rightarrow> nat option" where
  "unhex c =
     (if 0x30 \<le> c \<and> c \<le> 0x39 then Some (unat c - 48)
      else if 0x61 \<le> c \<and> c \<le> 0x66 then Some (unat c - 87)
      else if 0x41 \<le> c \<and> c \<le> 0x46 then Some (unat c - 55)
      else None)"

definition unescape :: "16 word \<Rightarrow> 16 word option" where
  "unescape e =
     (if e = QUOTE then Some QUOTE
      else if e = BACKSLASH then Some BACKSLASH
      else if e = 0x2F then Some 0x2F
      else if e = 0x62 then Some 0x08
      else if e = 0x66 then Some 0x0C
      else if e = 0x6E then Some 0x0A
      else if e = 0x72 then Some 0x0D
      else if e = 0x74 then Some 0x09
      else None)"

definition hex4 :: "nat \<Rightarrow> nat \<Rightarrow> nat \<Rightarrow> nat \<Rightarrow> 16 word" where
  "hex4 a b c d = of_nat (((a * 16 + b) * 16 + c) * 16 + d)"

fun parse_chars :: "jsstring \<Rightarrow> (jsstring \<times> jsstring) option" where
  "parse_chars [] = None"
| "parse_chars (c # cs) =
     (if c = QUOTE then Some ([], cs)
      else if c = BACKSLASH then
        (case cs of
           [] \<Rightarrow> None
         | e # cs' \<Rightarrow>
             if e = 0x75 then
               (case cs' of
                  h3 # h2 # h1 # h0 # rest \<Rightarrow>
                    (case (unhex h3, unhex h2, unhex h1, unhex h0) of
                       (Some a, Some b, Some c', Some d) \<Rightarrow>
                         map_option
                           (\<lambda>(t, r). (hex4 a b c' d # t, r))
                           (parse_chars rest)
                     | _ \<Rightarrow> None)
                | _ \<Rightarrow> None)
             else
               (case unescape e of
                  None \<Rightarrow> None
                | Some u \<Rightarrow> map_option (\<lambda>(t, r). (u # t, r)) (parse_chars cs')))
      else if c < 0x20 then None
      else map_option (\<lambda>(t, r). (c # t, r)) (parse_chars cs))"

text \<open>
  A number: an optional minus sign and decimal digits, with no leading zero.  A numeral
  with a fraction or an exponent denotes a number that need not be an integer; such
  numerals are outside this model and \<open>parse_number\<close> answers \<open>None\<close> for them, which no
  text written from a value of this model contains.
\<close>

definition is_digit :: "16 word \<Rightarrow> bool" where
  "is_digit c = (0x30 \<le> c \<and> c \<le> 0x39)"

definition digits_value :: "jsstring \<Rightarrow> nat" where
  "digits_value ds = foldl (\<lambda>a d. 10 * a + (unat d - 48)) 0 ds"

definition parse_number :: "jsstring \<Rightarrow> (int \<times> jsstring) option" where
  "parse_number s =
     (let negative = (s \<noteq> [] \<and> hd s = 0x2D);
          s1 = (if negative then tl s else s);
          ds = takeWhile is_digit s1;
          rest = dropWhile is_digit s1
      in if ds = [] \<or> (1 < length ds \<and> hd ds = 0x30) then None
         else if rest \<noteq> [] \<and> (hd rest = 0x2E \<or> hd rest = 0x65 \<or> hd rest = 0x45) then None
         else Some (if negative then - int (digits_value ds) else int (digits_value ds), rest))"

text \<open>
  A property that occurs twice keeps its place and takes the later value.  The first
  argument of the three parsers bounds the depth of the recursion; \<open>JSON_parse\<close> starts it
  above the length of the text, which the recursion cannot exceed.
\<close>

definition last_wins :: "(jsstring \<times> json) list \<Rightarrow> (jsstring \<times> json) list" where
  "last_wins kvs = fold (\<lambda>(k, v) acc. AList.update k v acc) kvs []"

fun parse_value :: "nat \<Rightarrow> jsstring \<Rightarrow> (json \<times> jsstring) option"
  and parse_elements :: "nat \<Rightarrow> jsstring \<Rightarrow> (json list \<times> jsstring) option"
  and parse_members :: "nat \<Rightarrow> jsstring \<Rightarrow> ((jsstring \<times> json) list \<times> jsstring) option"
where
  "parse_value 0 s = None"
| "parse_value (Suc n) s =
     (case skip_ws s of
        [] \<Rightarrow> None
      | c # cs \<Rightarrow>
          if c = LBRACE then
            (case skip_ws cs of
               [] \<Rightarrow> None
             | d # ds \<Rightarrow>
                 if d = RBRACE then Some (JObject [], ds)
                 else map_option (\<lambda>(kvs, r). (JObject (last_wins kvs), r))
                        (parse_members n (d # ds)))
          else if c = LBRACKET then
            (case skip_ws cs of
               [] \<Rightarrow> None
             | d # ds \<Rightarrow>
                 if d = RBRACKET then Some (JArray [], ds)
                 else map_option (\<lambda>(xs, r). (JArray xs, r)) (parse_elements n (d # ds)))
          else if c = QUOTE then map_option (\<lambda>(t, r). (JString t, r)) (parse_chars cs)
          else if take 4 (c # cs) = ascii ''true'' then Some (JBool True, drop 4 (c # cs))
          else if take 5 (c # cs) = ascii ''false'' then Some (JBool False, drop 5 (c # cs))
          else if take 4 (c # cs) = ascii ''null'' then Some (JNull, drop 4 (c # cs))
          else map_option (\<lambda>(i, r). (JNumber i, r)) (parse_number (c # cs)))"
| "parse_elements 0 s = None"
| "parse_elements (Suc n) s =
     (case parse_value n s of
        None \<Rightarrow> None
      | Some (v, r) \<Rightarrow>
          (case skip_ws r of
             [] \<Rightarrow> None
           | c # cs \<Rightarrow>
               if c = COMMA then map_option (\<lambda>(vs, r'). (v # vs, r')) (parse_elements n cs)
               else if c = RBRACKET then Some ([v], cs)
               else None))"
| "parse_members 0 s = None"
| "parse_members (Suc n) s =
     (case skip_ws s of
        [] \<Rightarrow> None
      | c # cs \<Rightarrow>
          if c = QUOTE then
            (case parse_chars cs of
               None \<Rightarrow> None
             | Some (k, r) \<Rightarrow>
                 (case skip_ws r of
                    [] \<Rightarrow> None
                  | d # ds \<Rightarrow>
                      if d = COLON then
                        (case parse_value n ds of
                           None \<Rightarrow> None
                         | Some (v, r') \<Rightarrow>
                             (case skip_ws r' of
                                [] \<Rightarrow> None
                              | e # es \<Rightarrow>
                                  if e = COMMA
                                  then map_option (\<lambda>(kvs, r''). ((k, v) # kvs, r''))
                                         (parse_members n es)
                                  else if e = RBRACE then Some ([(k, v)], es)
                                  else None))
                      else None))
          else None)"

text \<open>\<open>None\<close> stands for the \<open>SyntaxError\<close> that \<open>JSON.parse\<close> throws.\<close>

definition JSON_parse :: "jsstring \<Rightarrow> json option" where
  "JSON_parse text =
     (case parse_value (Suc (length text)) text of
        None \<Rightarrow> None
      | Some (v, r) \<Rightarrow> if skip_ws r = [] then Some v else None)"

subsection \<open>Sessions as JSON values\<close>

text \<open>
  The value of a record as the platform sees it.  An optional field that is absent (or
  \<open>undefined\<close>, which \<open>JSON.stringify\<close> skips) contributes no property.  A record does not
  keep the order in which the properties of its object were created; they are written in
  the order of the interface.  Reading a value back looks properties up by name.
\<close>

definition optional :: "string \<Rightarrow> ('a \<Rightarrow> json) \<Rightarrow> 'a option \<Rightarrow> (jsstring \<times> json) list" where
  "optional key f v = (case v of None \<Rightarrow> [] | Some x \<Rightarrow> [(ascii key, f x)])"

definition json_of_role :: "Role \<Rightarrow> json" where
  "json_of_role r = JString (case r of User \<Rightarrow> ascii ''user'' | Model \<Rightarrow> ascii ''model'')"

definition json_of_source :: "GroundingSource \<Rightarrow> json" where
  "json_of_source g =
     JObject (optional ''title'' JString (g_title g) @ optional ''uri'' JString (g_uri g))"

definition json_of_message :: "Message \<Rightarrow> json" where
  "json_of_message m =
     JObject ([(ascii ''id'', JString (m_id m)),
               (ascii ''role'', json_of_role (m_role m)),
               (ascii ''text'', JString (m_text m)),
               (ascii ''timestamp'', JNumber (m_timestamp m))]
              @ optional ''audioUrl'' JString (m_audioUrl m)
              @ optional ''imageUrl'' JString (m_imageUrl m)
              @ optional ''psychAnalysis'' JString (m_psychAnalysis m)
              @ optional ''language'' JString (m_language m)
              @ optional ''groundingSources'' (\<lambda>gs. JArray (map json_of_source gs))
                  (m_groundingSources m))"

definition json_of_session :: "ChatSession \<Rightarrow> json" where
  "json_of_session s =
     JObject [(ascii ''id'', JString (s_id s)),
              (ascii ''title'', JString (s_title s)),
              (ascii ''messages'', JArray (map json_of_message (s_messages s))),
              (ascii ''createdAt'', JNumber (s_createdAt s))]"

definition json_of_sessions :: "ChatSession list \<Rightarrow> json" where
  "json_of_sessions ss = JArray (map json_of_session ss)"

text \<open>Reading a property at the type the interface declares for it.\<close>

definition as_string :: "json option \<Rightarrow> jsstring option" where
  "as_string v = (case v of Some (JString t) \<Rightarrow> Some t | _ \<Rightarrow> None)"

definition as_number :: "json option \<Rightarrow> int option" where
  "as_number v = (case v of Some (JNumber i) \<Rightarrow> Some i | _ \<Rightarrow> None)"

definition as_optional :: "(json option \<Rightarrow> 'a option) \<Rightarrow> json option \<Rightarrow> 'a option option" where
  "as_optional f v = (case v of None \<Rightarrow> Some None | Some x \<Rightarrow> map_option Some (f (Some x)))"

definition as_role :: "json option \<Rightarrow> Role option" where
  "as_role v =
     (case as_string v of
        None \<Rightarrow> None
      | Some t \<Rightarrow> if t = ascii ''user'' then Some User
                  else if t = ascii ''model'' then Some Model else None)"

fun those_list :: "'a option list \<Rightarrow> 'a list option" where
  "those_list [] = Some []"
| "those_list (x # xs) =
     (case x of None \<Rightarrow> None | Some y \<Rightarrow> map_option ((#) y) (those_list xs))"

definition as_array :: "(json \<Rightarrow> 'a option) \<Rightarrow> json option \<Rightarrow> 'a list option" where
  "as_array f v = (case v of Some (JArray xs) \<Rightarrow> those_list (map f xs) | _ \<Rightarrow> None)"

definition source_of_json :: "json \<Rightarrow> GroundingSource option" where
  "source_of_json j =
     (case j of
        JObject kvs \<Rightarrow>
          (case (as_optional as_string (map_of kvs (ascii ''title'')),
                 as_optional as_string (map_of kvs (ascii ''uri''))) of
             (Some t, Some u) \<Rightarrow> Some \<lparr>g_title = t, g_uri = u\<rparr>
           | _ \<Rightarrow> None)
      | _ \<Rightarrow> None)"

definition message_of_json :: "json \<Rightarrow> Message option" where
  "message_of_json j =
     (case j of
        JObject kvs \<Rightarrow>
          (case (as_string (map_of kvs (ascii ''id'')),
                 as_role (map_of kvs (ascii ''role'')),
                 as_string (map_of kvs (ascii ''text'')),
                 as_number (map_of kvs (ascii ''timestamp'')),
                 as_optional as_string (map_of kvs (ascii ''audioUrl'')),
                 as_optional as_string (map_of kvs (ascii ''imageUrl'')),
                 as_optional as_string (map_of kvs (ascii ''psychAnalysis'')),
                 as_optional as_string (map_of kvs (ascii ''language'')),
                 as_optional (as_array source_of_json) (map_of kvs (ascii ''groundingSources''))) of
             (Some i, Some r, Some t, Some ts, Some a, Some im, Some p, Some l, Some g) \<Rightarrow>
               Some \<lparr>m_id = i, m_role = r, m_text = t, m_timestamp = ts, m_audioUrl = a,
                     m_imageUrl = im, m_psychAnalysis = p, m_language = l,
                     m_groundingSources = g\<rparr>
           | _ \<Rightarrow> None)
      | _ \<Rightarrow> None)"

definition session_of_json :: "json \<Rightarrow> ChatSession option" where
  "session_of_json j =
     (case j of
        JObject kvs \<Rightarrow>
          (case (as_string (map_of kvs (ascii ''id'')),
                 as_string (map_of kvs (ascii ''title'')),
                 as_array message_of_json (map_of kvs (ascii ''messages'')),
                 as_number (map_of kvs (ascii ''createdAt''))) of
             (Some i, Some t, Some ms, Some c) \<Rightarrow>
               Some \<lparr>s_id = i, s_title = t, s_messages = ms, s_createdAt = c\<rparr>
           | _ \<Rightarrow> None)
      | _ \<Rightarrow> None)"

definition sessions_of_json :: "json \<Rightarrow> ChatSession list option" where
  "sessions_of_json j = as_array session_of_json (Some j)"

text \<open>
  \<open>JSON.stringify(sessions)\<close> and \<open>JSON.parse(saved)\<close> as \<open>saveSessions\<close> and \<open>getSessions\<close> use
  them.  The cast of the parsed value to \<open>ChatSession[]\<close> is unchecked in the source; a
  value that is not of that type has no counterpart among the records, and
  \<open>parse_sessions\<close> marks it with \<open>TypeError\<close>.
\<close>

definition stringify_sessions :: "ChatSession list \<Rightarrow> js_error + jsstring" where
  "stringify_sessions ss = Inr (JSON_stringify (json_of_sessions ss))"

definition parse_sessions :: "jsstring \<Rightarrow> js_error + ChatSession list" where
  "parse_sessions text =
     (case JSON_parse text of
        None \<Rightarrow> Inl SyntaxError
      | Some j \<Rightarrow> (case sessions_of_json j of None \<Rightarrow> Inl TypeError | Some ss \<Rightarrow> Inr ss))"

section \<open>Backend gateway (services/gemini.ts)\<close>

text \<open>
  \<open>interface GroundingChunk { web?: { uri: string; title: string } }\<close>.  The chunks come
  from the service as plain data, and \<open>handleSend\<close> reads both fields of \<open>web\<close> with
  \<open>chunk.web?.title\<close> and \<open>chunk.web?.uri\<close>, so either may be missing at run time.
\<close>

record WebCitation =
  w_uri :: "jsstring option"
  w_title :: "jsstring option"

record GroundingChunk =
  web :: "WebCitation option"

text \<open>
  What \<open>getResponse\<close> resolves to: \<open>{ text, grounding }\<close>.  A call that rejects does so
  with some value \<open>error\<close>, of which the caller reads \<open>error?.message\<close> and nothing else;
  \<open>Thrown None\<close> stands for a value with no message (or for \<open>null\<close>).
\<close>

record ChatResult =
  r_text :: jsstring
  r_grounding :: "GroundingChunk list"

datatype thrown = Thrown (message: "jsstring option")

subsection \<open>decodeAudioData\<close>

text \<open>
  \<open>new Int16Array(data.buffer)\<close> views the bytes as 16-bit signed integers in the byte order
  of the platform, which is little-endian wherever a browser runs, and throws a
  \<open>RangeError\<close> when the number of bytes is odd.  \<open>data.buffer\<close> is the whole of \<open>data\<close>:
  \<open>decodeBase64\<close> allocates the array it returns.
\<close>

datatype audio_error = RangeError | NotSupportedError

fun Int16_elements :: "8 word list \<Rightarrow> 16 word list" where
  "Int16_elements (lo # hi # rest) = word_cat hi lo # Int16_elements rest"
| "Int16_elements _ = []"

definition Int16Array :: "8 word list \<Rightarrow> audio_error + 16 word list" where
  "Int16Array bytes =
     (if odd (length bytes) then Inl RangeError else Inr (Int16_elements bytes))"

text \<open>
  \<open>ctx.createBuffer(numberOfChannels, length, sampleRate)\<close> of the Web Audio API: a buffer
  of silence, or a \<open>NotSupportedError\<close> when an argument is zero or outside its nominal
  range (up to 32 channels; rates from 8000 to 96000 are supported everywhere).
\<close>

record AudioBuffer =
  numberOfChannels :: nat
  sampleRate :: nat
  channels :: "real list list"

definition createBuffer :: "nat \<Rightarrow> nat \<Rightarrow> nat \<Rightarrow> audio_error + AudioBuffer" where
  "createBuffer numChannels frames rate =
     (if numChannels = 0 \<or> 32 < numChannels \<or> frames = 0 \<or> rate < 8000 \<or> 96000 < rate
      then Inl NotSupportedError
      else Inr \<lparr>numberOfChannels = numChannels, sampleRate = rate,
                channels = replicate numChannels (replicate frames 0)\<rparr>)"

text \<open>
  The inner loop, \<open>for (let i = 0; i < frameCount; i++)\<close>.  \<open>frameCount\<close> is the quotient
  \<open>dataInt16.length / numChannels\<close>, not rounded, so \<open>i\<close> runs while
  \<open>i * numChannels < dataInt16.length\<close>; the buffer has the quotient rounded down as its
  length, and a typed array ignores a write beyond its end; a write within the buffer
  reads a sample within the data.  A sample divided by 32768 is a multiple of \<open>2^-15\<close> of
  absolute value at most 1, which a \<open>Float32Array\<close> holds exactly.
\<close>

definition fill_channel :: "16 word list \<Rightarrow> nat \<Rightarrow> nat \<Rightarrow> real list \<Rightarrow> real list" where
  "fill_channel dataInt16 numChannels channel channelData =
     fold (\<lambda>i cd. if i < length cd
                    then cd[i := real_of_int (sint (dataInt16 ! (i * numChannels + channel))) / 32768]
                    else cd)
       [0..<(length dataInt16 + numChannels - 1) div numChannels] channelData"

text \<open>The parameters \<open>sampleRate = 24000\<close> and \<open>numChannels = 1\<close> have defaults.\<close>

definition decodeAudioData ::
  "8 word list \<Rightarrow> nat option \<Rightarrow> nat option \<Rightarrow> audio_error + AudioBuffer" where
  "decodeAudioData data sampleRate_arg numChannels_arg =
     (let rate = (case sampleRate_arg of None \<Rightarrow> 24000 | Some r \<Rightarrow> r);
          numChannels = (case numChannels_arg of None \<Rightarrow> 1 | Some n \<Rightarrow> n)
      in case Int16Array data of
           Inl e \<Rightarrow> Inl e
         | Inr dataInt16 \<Rightarrow>
             (case createBuffer numChannels (length dataInt16 div numChannels) rate of
                Inl e \<Rightarrow> Inl e
              | Inr buffer \<Rightarrow>
                  Inr (buffer\<lparr>channels :=
                         fold (\<lambda>channel chans.
                                 chans[channel :=
                                   fill_channel dataInt16 numChannels channel (chans ! channel)])
                           [0..<numChannels] (channels buffer)\<rparr>)))"

text \<open>
  The reading of the specification: a little-endian signed 16-bit sample, from its two
  bytes.
\<close>

definition pcm16 :: "8 word \<Rightarrow> 8 word \<Rightarrow> int" where
  "pcm16 lo hi =
     (let u = int (unat lo) + 256 * int (unat hi) in if u < 32768 then u else u - 65536)"

section \<open>Grounding sources (App.tsx, handleSend)\<close>

text \<open>
  \<^verbatim>\<open>result.grounding.filter(chunk => chunk.web)
       .map(chunk => ({ title: chunk.web?.title, uri: chunk.web?.uri }))\<close>
  An object is truthy and \<open>undefined\<close> is falsy, so the filter keeps the chunks that have
  a \<open>web\<close> field.  \<open>chunk.web?.title\<close> is \<open>undefined\<close> when \<open>web\<close> is.
\<close>

definition web_title :: "GroundingChunk \<Rightarrow> jsstring option" where
  "web_title chunk = (case web chunk of None \<Rightarrow> None | Some w \<Rightarrow> w_title w)"

definition web_uri :: "GroundingChunk \<Rightarrow> jsstring option" where
  "web_uri chunk = (case web chunk of None \<Rightarrow> None | Some w \<Rightarrow> w_uri w)"

definition groundingSources :: "GroundingChunk list \<Rightarrow> GroundingSource list" where
  "groundingSources grounding =
     map (\<lambda>chunk. \<lparr>g_title = web_title chunk, g_uri = web_uri chunk\<rparr>)
       (filter (\<lambda>chunk. web chunk \<noteq> None) grounding)"

text \<open>The property of the specification, written as a recursion over the chunks.\<close>

fun citations :: "GroundingChunk list \<Rightarrow> GroundingSource list" where
  "citations [] = []"
| "citations (chunk # rest) =
     (case web chunk of
        None \<Rightarrow> citations rest
      | Some w \<Rightarrow> \<lparr>g_title = w_title w, g_uri = w_uri w\<rparr> # citations rest)"

section \<open>Structured-insight extraction (App.tsx, handleSend)\<close>

text \<open>
  \<^verbatim>\<open>const psychRegex = /\{.*"PsychologicalInsight".*?\}/gs;\<close>
  The engine backtracks.  With the \<open>s\<close> flag a dot matches every code unit.  Each function
  below matches a tail of the pattern at the head of its argument and returns the text
  matched and the text left, or \<open>None\<close> when that tail cannot match there.
\<close>

definition psychLiteral :: jsstring where
  "psychLiteral = ascii ''\"PsychologicalInsight\"''"

text \<open>\<^verbatim>\<open>.*?\}\<close>: lazy, so the closing brace is tried before the dot takes a code unit.\<close>

fun lazy_brace :: "jsstring \<Rightarrow> (jsstring \<times> jsstring) option" where
  "lazy_brace [] = None"
| "lazy_brace (c # cs) =
     (if c = RBRACE then Some ([c], cs)
      else map_option (\<lambda>(m, r). (c # m, r)) (lazy_brace cs))"

text \<open>\<^verbatim>\<open>"PsychologicalInsight".*?\}\<close>\<close>

definition lit_tail :: "jsstring \<Rightarrow> (jsstring \<times> jsstring) option" where
  "lit_tail s =
     (if take (length psychLiteral) s = psychLiteral
      then map_option (\<lambda>(m, r). (psychLiteral @ m, r))
             (lazy_brace (drop (length psychLiteral) s))
      else None)"

text \<open>
  \<^verbatim>\<open>.*"PsychologicalInsight".*?\}\<close>: greedy, so the dot takes a code unit first, and the
  rest of the pattern is tried here only when nothing matches further on.
\<close>

fun greedy_lit :: "jsstring \<Rightarrow> (jsstring \<times> jsstring) option" where
  "greedy_lit [] = lit_tail []"
| "greedy_lit (c # cs) =
     (case greedy_lit cs of
        Some (m, r) \<Rightarrow> Some (c # m, r)
      | None \<Rightarrow> lit_tail (c # cs))"

text \<open>The whole pattern at the head of the text.\<close>

fun match_here :: "jsstring \<Rightarrow> (jsstring \<times> jsstring) option" where
  "match_here [] = None"
| "match_here (c # cs) =
     (if c = LBRACE then map_option (\<lambda>(m, r). (c # m, r)) (greedy_lit cs) else None)"

text \<open>
  One run of the engine from \<open>lastIndex\<close>: the pattern is tried at each position in turn.
  The result is the text skipped, the match, and the text after it.
\<close>

fun exec :: "jsstring \<Rightarrow> (jsstring \<times> jsstring \<times> jsstring) option" where
  "exec [] = None"
| "exec (c # cs) =
     (case match_here (c # cs) of
        Some (m, r) \<Rightarrow> Some ([], m, r)
      | None \<Rightarrow> map_option (\<lambda>(p, m, r). (c # p, m, r)) (exec cs))"

lemma lazy_brace_shorter: "lazy_brace s = Some (m, r) \<Longrightarrow> length r < length s"
  by (induction s arbitrary: m) (auto split: if_splits)

lemma lit_tail_shorter: "lit_tail s = Some (m, r) \<Longrightarrow> length r < length s"
  by (auto simp: lit_tail_def split: if_splits dest!: lazy_brace_shorter)

lemma greedy_lit_shorter: "greedy_lit s = Some (m, r) \<Longrightarrow> length r < length s"
proof (induction s arbitrary: m)
  case Nil
  then show ?case by (auto dest: lit_tail_shorter)
next
  case (Cons c cs)
  then show ?case
    by (fastforce split: option.splits dest: lit_tail_shorter)
qed

lemma match_here_shorter: "match_here s = Some (m, r) \<Longrightarrow> length r < length s"
  by (cases s) (auto split: if_splits dest!: greedy_lit_shorter)

lemma exec_shorter: "exec s = Some (p, m, r) \<Longrightarrow> length r < length s"
proof (induction s arbitrary: p)
  case Nil
  then show ?case by simp
next
  case (Cons c cs)
  show ?case
  proof (cases "match_here (c # cs)")
    case None
    with Cons.prems obtain p' where "exec cs = Some (p', m, r)" by auto
    from Cons.IH [OF this] show ?thesis by simp
  next
    case (Some mr)
    with Cons.prems have "match_here (c # cs) = Some (m, r)" by (cases mr) auto
    then show ?thesis by (rule match_here_shorter)
  qed
qed

text \<open>
  \<open>botText.match(psychRegex)\<close> with the \<open>g\<close> flag: every match, each search starting where
  the match before ended (no match of this pattern is empty).  The empty list stands for
  the result \<open>null\<close>.
\<close>

function matchAll :: "jsstring \<Rightarrow> jsstring list" where
  "matchAll s = (case exec s of None \<Rightarrow> [] | Some (p, m, r) \<Rightarrow> m # matchAll r)"
  by pat_completeness auto
termination
  by (relation "measure length") (auto dest: exec_shorter)

text \<open>\<open>botText.replace(psychRegex, "")\<close> with the \<open>g\<close> flag: every match is taken out.\<close>

function replaceAll :: "jsstring \<Rightarrow> jsstring" where
  "replaceAll s = (case exec s of None \<Rightarrow> s | Some (p, m, r) \<Rightarrow> p @ replaceAll r)"
  by pat_completeness auto
termination
  by (relation "measure length") (auto dest: exec_shorter)

text \<open>
  \<open>String.prototype.trim\<close> removes white space and line terminators from both ends:
  TAB, LF, VT, FF, CR, SP, NBSP, the space separators of Unicode, LS, PS and the byte
  order mark.
\<close>

definition isWhiteSpace :: "16 word \<Rightarrow> bool" where
  "isWhiteSpace c =
     (c \<in> {0x0009, 0x000A, 0x000B, 0x000C, 0x000D, 0x0020, 0x00A0, 0x1680,
           0x2028, 0x2029, 0x202F, 0x205F, 0x3000, 0xFEFF}
      \<or> (0x2000 \<le> c \<and> c \<le> 0x200A))"

definition trim :: "jsstring \<Rightarrow> jsstring" where
  "trim s = rev (dropWhile isWhiteSpace (rev (dropWhile isWhiteSpace s)))"

text \<open>
  \<^verbatim>\<open>let cleanedText = botText; let psychAnalysis = "";
  const match = botText.match(psychRegex);
  if (match) { psychAnalysis = match[0];
               cleanedText = botText.replace(psychRegex, "").trim(); }\<close>
  The result is the pair \<open>(cleanedText, psychAnalysis)\<close>.
\<close>

definition extractInsight :: "jsstring \<Rightarrow> jsstring \<times> jsstring" where
  "extractInsight botText =
     (case matchAll botText of
        [] \<Rightarrow> (botText, [])
      | m0 # _ \<Rightarrow> (trim (replaceAll botText), m0))"



section \<open>The application state and its handlers (App.tsx)\<close>

text \<open>
  The state of the component \<open>App\<close> that the conversation depends on.  A handler is a
  function from the state in which it is called to the state after its updates, together
  with what it asks of the outside: the calls to the backend, or the callbacks it
  registers with \<open>setTimeout\<close>.  An updater \<open>setSessions(prev => ...)\<close> is applied to the
  sessions as the updates before it left them.
\<close>

datatype timer = CreateNewSession

record AppState =
  sessions :: "ChatSession list"
  activeSessionId :: "jsstring option"
  input :: jsstring
  isTyping :: bool
  isGeneratingImage :: bool
  errorMsg :: "jsstring option"
  settings :: UserSettings

text \<open>The initial values of the \<open>useState\<close> calls.\<close>

definition initialState :: AppState where
  "initialState =
     \<lparr>sessions = [], activeSessionId = None, input = [], isTyping = False,
      isGeneratingImage = False, errorMsg = None,
      settings = \<lparr>theme = Dark, volume = 0.8, playbackSpeed = 1.0\<rparr>\<rparr>"

text \<open>
  What a handler reads from outside: the two calls of the backend gateway that change
  the conversation, and the clock; \<open>now env k\<close> is what the \<open>k\<close>-th call of \<open>Date.now()\<close>
  in the handler returns.
\<close>

type_synonym history = "(Role \<times> jsstring) list"

record Env =
  getResponse :: "jsstring \<Rightarrow> history \<Rightarrow> thrown + ChatResult"
  generateImage :: "jsstring \<Rightarrow> thrown + jsstring option"
  now :: "nat \<Rightarrow> int"

datatype BackendCall =
    ChatCall jsstring history
  | SpeechCall jsstring
  | ImageCall jsstring

text \<open>\<open>a || b\<close> on strings: \<open>undefined\<close>, \<open>null\<close> and the empty string are falsy.\<close>

definition or_else :: "jsstring option \<Rightarrow> jsstring \<Rightarrow> jsstring" where
  "or_else a b = (case a of None \<Rightarrow> b | Some t \<Rightarrow> if t = [] then b else t)"

definition createNewSession :: "Env \<Rightarrow> AppState \<Rightarrow> AppState" where
  "createNewSession env st =
     (let newId = number_toString (now env 0);
          newSession = \<lparr>s_id = newId, s_title = ascii ''New Conversation'',
                        s_messages = [], s_createdAt = now env 1\<rparr>
      in st\<lparr>sessions := newSession # sessions st, activeSessionId := Some newId\<rparr>)"

text \<open>
  \<^verbatim>\<open>setSessions(prev => {
    const filtered = prev.filter(s => s.id !== id);
    if (activeSessionId === id) {
      const nextId = filtered.length > 0 ? filtered[0].id : null;
      setActiveSessionId(nextId);
      if (filtered.length === 0) setTimeout(createNewSession, 0);
    }
    return filtered; });\<close>
\<close>

definition deleteSession :: "jsstring \<Rightarrow> AppState \<Rightarrow> AppState \<times> timer list" where
  "deleteSession sid st =
     (let filtered = filter (\<lambda>s. s_id s \<noteq> sid) (sessions st)
      in if activeSessionId st = Some sid
         then (case filtered of
                 [] \<Rightarrow> (st\<lparr>sessions := filtered, activeSessionId := None\<rparr>, [CreateNewSession])
               | s # _ \<Rightarrow> (st\<lparr>sessions := filtered, activeSessionId := Some (s_id s)\<rparr>, []))
         else (st\<lparr>sessions := filtered\<rparr>, []))"

text \<open>The event loop runs the callbacks of the timers, in the order they were registered.\<close>

definition runTimers :: "Env \<Rightarrow> timer list \<Rightarrow> AppState \<Rightarrow> AppState" where
  "runTimers env timers st =
     fold (\<lambda>t st'. case t of CreateNewSession \<Rightarrow> createNewSession env st') timers st"

text \<open>\<open>deleteSession(id)\<close>, and then the callbacks it deferred.\<close>

definition deleteSessionSettled :: "Env \<Rightarrow> jsstring \<Rightarrow> AppState \<Rightarrow> AppState" where
  "deleteSessionSettled env sid st =
     (case deleteSession sid st of (st1, timers) \<Rightarrow> runTimers env timers st1)"

text \<open>
  The two updaters of \<open>handleSend\<close> and the one of \<open>handleGenerateImage\<close>:
  \<^verbatim>\<open>prev.map(s => s.id === activeSessionId
     ? { ...s, messages: [...s.messages, userMsg],
         title: s.messages.length === 0 ? text.substring(0, 30) : s.title }
     : s)\<close>
  and the same without the title.
\<close>

definition appendUserMsg ::
  "jsstring \<Rightarrow> Message \<Rightarrow> jsstring \<Rightarrow> ChatSession list \<Rightarrow> ChatSession list" where
  "appendUserMsg activeId userMsg text prev =
     map (\<lambda>s. if s_id s = activeId
              then s\<lparr>s_messages := s_messages s @ [userMsg],
                     s_title := (if length (s_messages s) = 0 then take 30 text else s_title s)\<rparr>
              else s) prev"

definition appendMsg :: "jsstring \<Rightarrow> Message \<Rightarrow> ChatSession list \<Rightarrow> ChatSession list" where
  "appendMsg activeId msg prev =
     map (\<lambda>s. if s_id s = activeId then s\<lparr>s_messages := s_messages s @ [msg]\<rparr> else s) prev"

text \<open>
  The history sent with the prompt is read from \<open>sessionsRef.current\<close>, which an effect
  sets to the sessions after each render: inside the handler it still holds the sessions
  the handler was called with.
\<close>

definition historyOf :: "jsstring \<Rightarrow> ChatSession list \<Rightarrow> history" where
  "historyOf activeId current =
     (case find (\<lambda>s. s_id s = activeId) current of
        None \<Rightarrow> []
      | Some activeSession \<Rightarrow> map (\<lambda>m. (m_role m, m_text m)) (s_messages activeSession))"

definition userMessage :: "Env \<Rightarrow> jsstring \<Rightarrow> Message" where
  "userMessage env text =
     \<lparr>m_id = number_toString (now env 0), m_role = User, m_text = text,
      m_timestamp = now env 1, m_audioUrl = None, m_imageUrl = None,
      m_psychAnalysis = None, m_language = None, m_groundingSources = None\<rparr>"

definition botMessage :: "Env \<Rightarrow> ChatResult \<Rightarrow> Message" where
  "botMessage env result =
     (case extractInsight (r_text result) of
        (cleanedText, psychAnalysis) \<Rightarrow>
          \<lparr>m_id = number_toString (now env 2 + 1), m_role = Model, m_text = cleanedText,
           m_timestamp = now env 3, m_audioUrl = None, m_imageUrl = None,
           m_psychAnalysis = Some psychAnalysis, m_language = None,
           m_groundingSources = Some (groundingSources (r_grounding result))\<rparr>)"

text \<open>
  \<open>handleSend(textOverride)\<close>.  The result is the state after the handler and the calls it
  made to the backend, in order.  \<open>handlePlayAudio\<close>, awaited last, requests the speech for
  the first 500 code units of the cleaned text; it catches whatever its body throws and
  changes nothing of this state.
\<close>

definition handleSend :: "Env \<Rightarrow> jsstring option \<Rightarrow> AppState \<Rightarrow> AppState \<times> BackendCall list" where
  "handleSend env textOverride st =
     (let text = or_else textOverride (input st)
      in case activeSessionId st of
           None \<Rightarrow> (st, [])
         | Some activeId \<Rightarrow>
             if trim text = [] \<or> activeId = [] then (st, [])
             else
               let st1 = st\<lparr>errorMsg := None,
                            sessions := appendUserMsg activeId (userMessage env text) text (sessions st),
                            input := [], isTyping := True\<rparr>;
                   history = historyOf activeId (sessions st)
               in case getResponse env text history of
                    Inl error \<Rightarrow>
                      (st1\<lparr>errorMsg :=
                             Some (or_else (message error)
                                     (ascii ''Something went wrong. Please check your connection.'')),
                           isTyping := False\<rparr>,
                       [ChatCall text history])
                  | Inr result \<Rightarrow>
                      (st1\<lparr>sessions := appendMsg activeId (botMessage env result) (sessions st1),
                           isTyping := False\<rparr>,
                       [ChatCall text history,
                        SpeechCall (take 500 (m_text (botMessage env result)))]))"

definition imageMessage :: "Env \<Rightarrow> jsstring \<Rightarrow> jsstring \<Rightarrow> Message" where
  "imageMessage env prompt url =
     \<lparr>m_id = number_toString (now env 0), m_role = Model,
      m_text = ascii ''Generated image for: \"'' @ prompt @ ascii ''\"'',
      m_timestamp = now env 1, m_audioUrl = None, m_imageUrl = Some url,
      m_psychAnalysis = None, m_language = None, m_groundingSources = None\<rparr>"

definition imageFailed :: "AppState \<Rightarrow> AppState" where
  "imageFailed st =
     st\<lparr>errorMsg := Some (ascii ''Failed to generate image. Please try a different prompt.''),
        isGeneratingImage := False\<rparr>"

definition handleGenerateImage :: "Env \<Rightarrow> AppState \<Rightarrow> AppState \<times> BackendCall list" where
  "handleGenerateImage env st =
     (case activeSessionId st of
        None \<Rightarrow> (st, [])
      | Some activeId \<Rightarrow>
          if trim (input st) = [] \<or> activeId = [] then (st, [])
          else
            let st1 = st\<lparr>errorMsg := None, isGeneratingImage := True\<rparr>
            in case generateImage env (input st) of
                 Inl e \<Rightarrow>
                   (st1\<lparr>errorMsg := Some (or_else (message e) (ascii ''Image generation failed.'')),
                        isGeneratingImage := False\<rparr>,
                    [ImageCall (input st)])
               | Inr None \<Rightarrow> (imageFailed st1, [ImageCall (input st)])
               | Inr (Some url) \<Rightarrow>
                   if url = [] then (imageFailed st1, [ImageCall (input st)])
                   else
                     (st1\<lparr>sessions :=
                            appendMsg activeId (imageMessage env (input st) url) (sessions st1),
                          input := [], isGeneratingImage := False\<rparr>,
                      [ImageCall (input st)]))"

text \<open>
  The effect that runs once when the component is mounted, as far as it sets this state:
  \<^verbatim>\<open>const savedSessions = storageService.getSessions();
  const savedSettings = storageService.getSettings();
  const savedActiveId = storageService.getActiveSessionId();
  if (savedSettings) setSettings(savedSettings);
  if (savedSessions && savedSessions.length > 0) {
    setSessions(savedSessions);
    if (savedActiveId && savedSessions.some(s => s.id === savedActiveId))
      setActiveSessionId(savedActiveId);
    else setActiveSessionId(savedSessions[0].id);
  } else { createNewSession(); }\<close>
  An exception that leaves a storage operation leaves the effect.
\<close>

definition mount ::
  "(jsstring \<Rightarrow> js_error + ChatSession list) \<Rightarrow> (jsstring \<Rightarrow> js_error + UserSettings option)
     \<Rightarrow> Env \<Rightarrow> LocalStorage \<Rightarrow> AppState \<Rightarrow> js_error + AppState" where
  "mount parseSessions parseSettings env ls st =
     (case getSessions parseSessions ls of
        Inl e \<Rightarrow> Inl e
      | Inr savedSessions \<Rightarrow>
     (case getSettings parseSettings ls of
        Inl e \<Rightarrow> Inl e
      | Inr savedSettings \<Rightarrow>
     (case getActiveSessionId ls of
        Inl e \<Rightarrow> Inl e
      | Inr savedActiveId \<Rightarrow>
          let st1 = (case savedSettings of None \<Rightarrow> st | Some v \<Rightarrow> st\<lparr>settings := v\<rparr>)
          in Inr (case savedSessions of
                    [] \<Rightarrow> createNewSession env st1
                  | first # _ \<Rightarrow>
                      st1\<lparr>sessions := savedSessions,
                          activeSessionId :=
                            (case savedActiveId of
                               None \<Rightarrow> Some (s_id first)
                             | Some a \<Rightarrow>
                                 if a \<noteq> [] \<and> list_ex (\<lambda>s. s_id s = a) savedSessions
                                 then Some a else Some (s_id first))\<rparr>))))"


section \<open>Properties of the conversation, as predicates\<close>

text \<open>
  \<open>append_only active old new\<close>: between two states of the session collection, every session
  keeps its place and its id, a session that is not the active one is unchanged, and the
  messages a session had are still there, in order, at the front of its messages; if no
  session has the active id, nothing changed at all.
\<close>

definition append_only :: "jsstring option \<Rightarrow> ChatSession list \<Rightarrow> ChatSession list \<Rightarrow> bool" where
  "append_only active old new =
     (list_all2 (\<lambda>s s'. (Some (s_id s) \<noteq> active \<longrightarrow> s' = s)
                        \<and> s_id s' = s_id s
                        \<and> take (length (s_messages s)) (s_messages s') = s_messages s) old new
      \<and> ((\<forall>s \<in> set old. Some (s_id s) \<noteq> active) \<longrightarrow> new = old))"


text \<open>The session that \<open>createNewSession\<close> builds.\<close>

definition freshSession :: "Env \<Rightarrow> ChatSession" where
  "freshSession env =
     \<lparr>s_id = number_toString (now env 0), s_title = ascii ''New Conversation'',
      s_messages = [], s_createdAt = now env 1\<rparr>"

section \<open>Example states and environments\<close>

definition example_sessions :: "ChatSession list" where
  "example_sessions =
     [\<lparr>s_id = ascii ''1'', s_title = ascii ''Hello'',
       s_messages = [\<lparr>m_id = ascii ''7'', m_role = User, m_text = ascii ''Hello'',
                      m_timestamp = 7, m_audioUrl = None, m_imageUrl = None,
                      m_psychAnalysis = None, m_language = None, m_groundingSources = None\<rparr>],
       s_createdAt = 1\<rparr>,
      \<lparr>s_id = ascii ''2'', s_title = ascii ''New Conversation'', s_messages = [],
       s_createdAt = 2\<rparr>]"

definition example_state :: AppState where
  "example_state =
     initialState\<lparr>sessions := example_sessions, activeSessionId := Some (ascii ''2''),
                  input := ascii ''Hi''\<rparr>"

definition offline_env :: Env where
  "offline_env =
     \<lparr>getResponse = (\<lambda>prompt history. Inl (Thrown None)),
      generateImage = (\<lambda>prompt. Inl (Thrown (Some (ascii ''offline'')))),
      now = (\<lambda>k. 40 + int k)\<rparr>"

definition online_env :: Env where
  "online_env =
     \<lparr>getResponse = (\<lambda>prompt history.
        Inr \<lparr>r_text = ascii ''Hello! {\"PsychologicalInsight\": \"greeting\"}'', r_grounding = []\<rparr>),
      generateImage = (\<lambda>prompt. Inr (Some (ascii ''data:image/png;base64,AAAA''))),
      now = (\<lambda>k. 40 + int k)\<rparr>"

text \<open>
  Two states with one session that is not the active one.  The first is what a \<open>storage\<close>
  event leaves behind: \<open>handleStorageEvent\<close> replaces the sessions by the ones another tab
  wrote and does not touch the active id, which here still names a session of the
  collection that was replaced.  In the second no session is active.
\<close>

definition stale_state :: AppState where
  "stale_state =
     initialState\<lparr>sessions := [\<lparr>s_id = ascii ''2'', s_title = ascii ''New Conversation'',
                                   s_messages = [], s_createdAt = 2\<rparr>],
                  activeSessionId := Some (ascii ''1'')\<rparr>"

definition unselected_state :: AppState where
  "unselected_state = stale_state\<lparr>activeSessionId := None\<rparr>"

text \<open>
  Three states of the storage: one the document may not use, an empty one, and one whose
  settings record is not JSON.  With them goes a parser of settings that rejects the text
  it is given, as \<open>JSON.parse\<close> does that record.
\<close>

definition blocked_storage :: LocalStorage where
  "blocked_storage = \<lparr>items = [], denied = True, quota = 5000000\<rparr>"

definition empty_storage :: LocalStorage where
  "empty_storage = \<lparr>items = [], denied = False, quota = 5000000\<rparr>"


definition reject_settings :: "jsstring \<Rightarrow> js_error + UserSettings option" where
  "reject_settings text = Inl SyntaxError"

text \<open>Two samples as four bytes: the lowest and the highest value of a 16-bit sample.\<close>

definition example_pcm :: "8 word list" where
  "example_pcm = [0x00, 0x80, 0xFF, 0x7F]"

section \<open>Notions for the round trip through JSON text\<close>

text \<open>
  A JSON value is well formed when no object has two properties of one name.  A value
  round-trips when the parser, given enough depth, reads the text written for it back
  from the head of any text in which a comma, a closing bracket or brace, or nothing
  follows.
\<close>

fun wf_json :: "json \<Rightarrow> bool" where
  "wf_json (JArray xs) = (\<forall>x \<in> set xs. wf_json x)"
| "wf_json (JObject kvs) = (distinct (map fst kvs) \<and> (\<forall>kv \<in> set kvs. wf_json (snd kv)))"
| "wf_json _ = True"

definition value_end :: "jsstring \<Rightarrow> bool" where
  "value_end rest = (rest = [] \<or> hd rest = COMMA \<or> hd rest = RBRACKET \<or> hd rest = RBRACE)"

definition value_start :: "16 word \<Rightarrow> bool" where
  "value_start c = (\<not> is_ws c \<and> c \<noteq> RBRACKET \<and> c \<noteq> RBRACE)"

definition number_end :: "jsstring \<Rightarrow> bool" where
  "number_end rest =
     (rest = [] \<or> (\<not> is_digit (hd rest) \<and> hd rest \<noteq> 0x2E \<and> hd rest \<noteq> 0x65 \<and> hd rest \<noteq> 0x45))"

definition round_trips :: "json \<Rightarrow> bool" where
  "round_trips j =
     (\<forall>n rest. length (JSON_stringify j) \<le> n \<longrightarrow> value_end rest \<longrightarrow>
        parse_value n (JSON_stringify j @ rest) = Some (j, rest))"

definition member :: "jsstring \<times> json \<Rightarrow> jsstring" where
  "member kv = QuoteJSONString (fst kv) @ COLON # JSON_stringify (snd kv)"

text \<open>A storage with room for ten code units.\<close>

definition full_storage :: LocalStorage where
  "full_storage = \<lparr>items = [], denied = False, quota = 10\<rparr>"

declare digits.simps [simp del]

section \<open>Grounding filter\<close>

lemma groundingSources_citations: "groundingSources grounding = citations grounding"
  by (induction grounding)
     (auto simp: groundingSources_def web_title_def web_uri_def split: option.splits)

text \<open>
  C6.  The derived grounding sources are exactly the chunks that carry a web citation, in
  their original order, each mapped to its title and uri (either may be absent); a chunk
  without a web field contributes nothing.  For the chunks
  \<open>[{web:{uri:"a"}}, {}, {web:{uri:"b",title:"B"}}]\<close> the sources are
  \<open>[{uri:"a"}, {uri:"b", title:"B"}]\<close>.
\<close>

theorem grounding_filter:
  "groundingSources grounding = citations grounding
   \<and> length (groundingSources grounding) = length (filter (\<lambda>chunk. web chunk \<noteq> None) grounding)
   \<and> groundingSources
        [\<lparr>web = Some \<lparr>w_uri = Some (ascii ''a''), w_title = None\<rparr>\<rparr>,
         \<lparr>web = None\<rparr>,
         \<lparr>web = Some \<lparr>w_uri = Some (ascii ''b''), w_title = Some (ascii ''B'')\<rparr>\<rparr>]
       = [\<lparr>g_title = None, g_uri = Some (ascii ''a'')\<rparr>,
          \<lparr>g_title = Some (ascii ''B''), g_uri = Some (ascii ''b'')\<rparr>]"
proof (intro conjI)
  show "groundingSources grounding = citations grounding"
    by (rule groundingSources_citations)
  show "length (groundingSources grounding)
        = length (filter (\<lambda>chunk. web chunk \<noteq> None) grounding)"
    by (simp add: groundingSources_def)
  show "groundingSources
        [\<lparr>web = Some \<lparr>w_uri = Some (ascii ''a''), w_title = None\<rparr>\<rparr>,
         \<lparr>web = None\<rparr>,
         \<lparr>web = Some \<lparr>w_uri = Some (ascii ''b''), w_title = Some (ascii ''B'')\<rparr>\<rparr>]
       = [\<lparr>g_title = None, g_uri = Some (ascii ''a'')\<rparr>,
          \<lparr>g_title = Some (ascii ''B''), g_uri = Some (ascii ''b'')\<rparr>]"
    by (simp add: groundingSources_def web_title_def web_uri_def)
qed

section \<open>Sending a turn: preconditions and failure\<close>











section \<open>Appending messages leaves the rest of the collection alone\<close>

lemma append_only_refl: "append_only active old old"
  by (simp add: append_only_def list_all2_same)

lemma append_only_trans:
  assumes "append_only active xs ys" "append_only active ys zs"
  shows "append_only active xs zs"
proof -
  let ?P = "\<lambda>s s'. (Some (s_id s) \<noteq> active \<longrightarrow> s' = s) \<and> s_id s' = s_id s
                \<and> take (length (s_messages s)) (s_messages s') = s_messages s"
  from assms have a: "list_all2 ?P xs ys" and b: "list_all2 ?P ys zs"
    by (simp_all add: append_only_def)
  have step: "?P x z" if "?P x y" "?P y z" for x y z
  proof (intro conjI impI)
    assume "Some (s_id x) \<noteq> active"
    with that show "z = x" by simp
  next
    from that show "s_id z = s_id x" by simp
  next
    from that have "take (length (s_messages x)) (s_messages y) = s_messages x"
      and "take (length (s_messages y)) (s_messages z) = s_messages y" by simp_all
    then show "take (length (s_messages x)) (s_messages z) = s_messages x"
      by (metis append_eq_conv_conj append_take_drop_id append.assoc)
  qed
  have l: "list_all2 ?P xs zs"
    using a b
  proof (induction xs ys arbitrary: zs rule: list_all2_induct)
    case Nil
    then show ?case by simp
  next
    case (Cons x xs y ys)
    from Cons.prems obtain z zs' where zs: "zs = z # zs'" "?P y z" "list_all2 ?P ys zs'"
      by (cases zs) auto
    from step [OF Cons.hyps(1) zs(2)] Cons.IH [OF zs(3)] zs(1) show ?case by simp
  qed
  have "zs = xs" if "\<forall>s \<in> set xs. Some (s_id s) \<noteq> active"
  proof -
    from that assms(1) have "ys = xs" by (simp add: append_only_def)
    with that assms(2) show ?thesis by (simp add: append_only_def)
  qed
  with l show ?thesis by (simp add: append_only_def)
qed

lemma append_only_appendMsg: "append_only (Some a) prev (appendMsg a m prev)"
proof -
  have "list_all2 (\<lambda>s s'. (Some (s_id s) \<noteq> Some a \<longrightarrow> s' = s) \<and> s_id s' = s_id s
          \<and> take (length (s_messages s)) (s_messages s') = s_messages s) prev (appendMsg a m prev)"
    by (induction prev) (simp_all add: appendMsg_def)
  moreover have "appendMsg a m prev = prev" if "\<forall>s \<in> set prev. Some (s_id s) \<noteq> Some a"
    using that by (induction prev) (simp_all add: appendMsg_def)
  ultimately show ?thesis by (simp add: append_only_def)
qed

lemma append_only_appendUserMsg: "append_only (Some a) prev (appendUserMsg a m t prev)"
proof -
  have "list_all2 (\<lambda>s s'. (Some (s_id s) \<noteq> Some a \<longrightarrow> s' = s) \<and> s_id s' = s_id s
          \<and> take (length (s_messages s)) (s_messages s') = s_messages s) prev (appendUserMsg a m t prev)"
    by (induction prev) (simp_all add: appendUserMsg_def)
  moreover have "appendUserMsg a m t prev = prev" if "\<forall>s \<in> set prev. Some (s_id s) \<noteq> Some a"
    using that by (induction prev) (simp_all add: appendUserMsg_def)
  ultimately show ?thesis by (simp add: append_only_def)
qed

lemma handleSend_sessions:
  "sessions (fst (handleSend env textOverride st)) = sessions st
   \<or> (\<exists>a m t. activeSessionId st = Some a
        \<and> (sessions (fst (handleSend env textOverride st)) = appendUserMsg a m t (sessions st)
           \<or> (\<exists>m'. sessions (fst (handleSend env textOverride st))
                      = appendMsg a m' (appendUserMsg a m t (sessions st)))))"
  by (auto simp: handleSend_def Let_def split: option.splits sum.splits)

lemma handleGenerateImage_sessions:
  "sessions (fst (handleGenerateImage env st)) = sessions st
   \<or> (\<exists>a m. activeSessionId st = Some a
        \<and> sessions (fst (handleGenerateImage env st)) = appendMsg a m (sessions st))"
  by (auto simp: handleGenerateImage_def imageFailed_def Let_def split: option.splits sum.splits)

lemma append_only_nth:
  assumes "append_only active old new" and "i < length old"
  shows "(Some (s_id (old ! i)) \<noteq> active \<longrightarrow> new ! i = old ! i)
       \<and> take (length (s_messages (old ! i))) (s_messages (new ! i)) = s_messages (old ! i)"
  using assms by (simp add: append_only_def list_all2_conv_all_nth)

text \<open>
  C10.  Each of the three appending updaters, and with them each run of \<open>handleSend\<close> and of
  \<open>handleGenerateImage\<close> whatever the backend answers, changes the session collection by
  appending only: a session whose id is not the active id is unchanged, the messages the
  active session had are kept in order in front of the new ones, and when no session has
  the active id the collection is unchanged.
\<close>

theorem append_frame:
  "append_only (Some a) prev (appendUserMsg a userMsg text prev)
   \<and> append_only (Some a) prev (appendMsg a msg prev)
   \<and> append_only (activeSessionId st) (sessions st) (sessions (fst (handleSend env textOverride st)))
   \<and> append_only (activeSessionId st) (sessions st) (sessions (fst (handleGenerateImage env st)))"
proof (intro conjI)
  show "append_only (Some a) prev (appendUserMsg a userMsg text prev)"
    by (rule append_only_appendUserMsg)
  show "append_only (Some a) prev (appendMsg a msg prev)"
    by (rule append_only_appendMsg)
  show "append_only (activeSessionId st) (sessions st) (sessions (fst (handleSend env textOverride st)))"
    using handleSend_sessions [of env textOverride st]
    by (auto intro: append_only_refl append_only_appendUserMsg append_only_appendMsg
          append_only_trans [OF append_only_appendUserMsg append_only_appendMsg])
  show "append_only (activeSessionId st) (sessions st) (sessions (fst (handleGenerateImage env st)))"
    using handleGenerateImage_sessions [of env st]
    by (auto intro: append_only_refl append_only_appendMsg)
qed

theorem append_frame_witness:
  "Some (s_id (sessions example_state ! 0)) \<noteq> activeSessionId example_state
   \<and> sessions (fst (handleSend online_env None example_state)) ! 0 = sessions example_state ! 0
   \<and> take (length (s_messages (sessions example_state ! 1)))
        (s_messages (sessions (fst (handleGenerateImage online_env example_state)) ! 1))
       = s_messages (sessions example_state ! 1)"
proof -
  have n: "Some (s_id (sessions example_state ! 0)) \<noteq> activeSessionId example_state"
    by (simp add: example_state_def example_sessions_def ascii_def)
  have l: "0 < length (sessions example_state)" "1 < length (sessions example_state)"
    by (simp_all add: example_state_def example_sessions_def)
  note f = append_frame [of "ascii ''2''" "sessions example_state" "userMessage online_env []" "[]"
      "userMessage online_env []" example_state online_env None]
  from f have a: "append_only (activeSessionId example_state) (sessions example_state)
      (sessions (fst (handleSend online_env None example_state)))"
    by (elim conjE)
  from f have b: "append_only (activeSessionId example_state) (sessions example_state)
      (sessions (fst (handleGenerateImage online_env example_state)))"
    by (elim conjE)
  from append_only_nth [OF a l(1)] n
  have "sessions (fst (handleSend online_env None example_state)) ! 0 = sessions example_state ! 0"
    by blast
  moreover from append_only_nth [OF b l(2)]
  have "take (length (s_messages (sessions example_state ! 1)))
        (s_messages (sessions (fst (handleGenerateImage online_env example_state)) ! 1))
       = s_messages (sessions example_state ! 1)"
    by blast
  ultimately show ?thesis using n by (intro conjI)
qed

section \<open>Deleting a session\<close>

lemma createNewSession_simps:
  "sessions (createNewSession env st) = freshSession env # sessions st"
  "activeSessionId (createNewSession env st) = Some (s_id (freshSession env))"
  "settings (createNewSession env st) = settings st"
  by (simp_all add: createNewSession_def freshSession_def Let_def)

text \<open>
  C4, as the code has it.  When exactly one session exists and the active id is its id,
  \<open>deleteSession\<close> on it, followed by the creation it defers, leaves exactly one session:
  the fresh one, with no messages and the title \<open>New Conversation\<close>, and the active id is
  its id.  When the active session is deleted and others remain, the first of those
  becomes active and nothing is deferred.
\<close>

theorem delete_active_session:
  "(sessions st = [s] \<and> activeSessionId st = Some (s_id s) \<longrightarrow>
      sessions (deleteSessionSettled env (s_id s) st) = [freshSession env]
      \<and> activeSessionId (deleteSessionSettled env (s_id s) st) = Some (s_id (freshSession env))
      \<and> s_messages (freshSession env) = []
      \<and> s_title (freshSession env) = ascii ''New Conversation'')
   \<and> (activeSessionId st = Some sid \<and> filter (\<lambda>s. s_id s \<noteq> sid) (sessions st) = s' # rest \<longrightarrow>
      deleteSession sid st = (st\<lparr>sessions := s' # rest, activeSessionId := Some (s_id s')\<rparr>, [])
      \<and> activeSessionId (deleteSessionSettled env sid st) = Some (s_id s'))"
proof (intro conjI impI)
  assume a: "sessions st = [s] \<and> activeSessionId st = Some (s_id s)"
  then have d: "deleteSession (s_id s) st = (st\<lparr>sessions := [], activeSessionId := None\<rparr>, [CreateNewSession])"
    by (simp add: deleteSession_def)
  then have e: "deleteSessionSettled env (s_id s) st
                = createNewSession env (st\<lparr>sessions := [], activeSessionId := None\<rparr>)"
    by (simp add: deleteSessionSettled_def runTimers_def)
  show "sessions (deleteSessionSettled env (s_id s) st) = [freshSession env]"
    by (simp add: e createNewSession_simps)
  show "activeSessionId (deleteSessionSettled env (s_id s) st) = Some (s_id (freshSession env))"
    by (simp add: e createNewSession_simps)
  show "s_messages (freshSession env) = []" by (simp add: freshSession_def)
  show "s_title (freshSession env) = ascii ''New Conversation''" by (simp add: freshSession_def)
next
  assume a: "activeSessionId st = Some sid \<and> filter (\<lambda>s. s_id s \<noteq> sid) (sessions st) = s' # rest"
  then show d: "deleteSession sid st = (st\<lparr>sessions := s' # rest, activeSessionId := Some (s_id s')\<rparr>, [])"
    by (simp add: deleteSession_def)
  then show "activeSessionId (deleteSessionSettled env sid st) = Some (s_id s')"
    by (simp add: deleteSessionSettled_def runTimers_def)
qed

theorem delete_active_session_witness:
  "sessions (example_state\<lparr>sessions := [example_sessions ! 1]\<rparr>) = [example_sessions ! 1]
   \<and> activeSessionId (example_state\<lparr>sessions := [example_sessions ! 1]\<rparr>)
       = Some (s_id (example_sessions ! 1))
   \<and> sessions (deleteSessionSettled offline_env (s_id (example_sessions ! 1))
        (example_state\<lparr>sessions := [example_sessions ! 1]\<rparr>))
       = [\<lparr>s_id = ascii ''40'', s_title = ascii ''New Conversation'', s_messages = [],
           s_createdAt = 41\<rparr>]
   \<and> activeSessionId example_state = Some (ascii ''2'')
   \<and> filter (\<lambda>s. s_id s \<noteq> ascii ''2'') (sessions example_state) = [example_sessions ! 0]
   \<and> activeSessionId (deleteSessionSettled offline_env (ascii ''2'') example_state)
       = Some (ascii ''1'')"
proof -
  let ?st = "example_state\<lparr>sessions := [example_sessions ! 1]\<rparr>"
  have h1: "sessions ?st = [example_sessions ! 1] \<and> activeSessionId ?st = Some (s_id (example_sessions ! 1))"
    by (simp add: example_state_def example_sessions_def)
  have f: "freshSession offline_env
           = \<lparr>s_id = ascii ''40'', s_title = ascii ''New Conversation'', s_messages = [],
           s_createdAt = 41\<rparr>"
    by (simp add: freshSession_def offline_env_def number_toString_def digits.simps ascii_def)
  have h2: "activeSessionId example_state = Some (ascii ''2'')
      \<and> filter (\<lambda>s. s_id s \<noteq> ascii ''2'') (sessions example_state) = example_sessions ! 0 # []"
    by (simp add: example_state_def example_sessions_def ascii_def)
  have i: "s_id (example_sessions ! 0) = ascii ''1''"
    by (simp add: example_sessions_def)
  note t = delete_active_session [of ?st "example_sessions ! 1" offline_env]
  note u = delete_active_session [of example_state _ offline_env "ascii ''2''"
      "example_sessions ! 0" "[]"]
  from t h1 have "sessions (deleteSessionSettled offline_env (s_id (example_sessions ! 1)) ?st)
      = [freshSession offline_env]"
    by blast
  then have a: "sessions (deleteSessionSettled offline_env (s_id (example_sessions ! 1)) ?st)
      = [\<lparr>s_id = ascii ''40'', s_title = ascii ''New Conversation'', s_messages = [],
           s_createdAt = 41\<rparr>]"
    by (simp only: f)
  from u h2 have "activeSessionId (deleteSessionSettled offline_env (ascii ''2'') example_state)
       = Some (s_id (example_sessions ! 0))"
    by blast
  then have b: "activeSessionId (deleteSessionSettled offline_env (ascii ''2'') example_state)
       = Some (ascii ''1'')"
    by (simp only: i)
  from h1 h2 a b show ?thesis by simp
qed

text \<open>
  The claim without the condition on the active id fails: \<open>deleteSession\<close> defers the
  creation only under \<open>activeSessionId === id\<close>.  In \<open>stale_state\<close> the only session has the
  id \<open>2\<close> and the active id is \<open>1\<close>, in \<open>unselected_state\<close> there is no active id; deleting
  the session leaves no session at all, and nothing is deferred.
\<close>

theorem delete_only_session_counterexample:
  "length (sessions stale_state) = 1
   \<and> s_id (hd (sessions stale_state)) = ascii ''2''
   \<and> sessions (deleteSessionSettled offline_env (ascii ''2'') stale_state) = []
   \<and> activeSessionId (deleteSessionSettled offline_env (ascii ''2'') stale_state) = Some (ascii ''1'')
   \<and> length (sessions unselected_state) = 1
   \<and> s_id (hd (sessions unselected_state)) = ascii ''2''
   \<and> sessions (deleteSessionSettled offline_env (ascii ''2'') unselected_state) = []
   \<and> activeSessionId (deleteSessionSettled offline_env (ascii ''2'') unselected_state) = None"
  by (simp add: stale_state_def unselected_state_def deleteSessionSettled_def deleteSession_def
        runTimers_def ascii_def)

section \<open>The boundary of the persistent store\<close>


lemma getSessions_blocked: "denied ls \<Longrightarrow> getSessions parse ls = Inr []"
  by (simp add: getSessions_def getItem_def)

lemma getSettings_blocked: "denied ls \<Longrightarrow> getSettings parse ls = Inr None"
  by (simp add: getSettings_def getItem_def)

text \<open>
  C5.  Five of the six operations return normally whatever the storage and the JSON
  functions do (\<open>storage_catches\<close>, with the default result when the storage is
  blocked).  \<open>getActiveSessionId\<close> has no \<open>try\<close>: on a storage the document may not use,
  the \<open>SecurityError\<close> of \<open>getItem\<close> leaves it, and with it the effect that loads the state
  at startup.
\<close>

theorem getActiveSessionId_throws:
  "getActiveSessionId blocked_storage = Inl SecurityError
   \<and> getSessions parse_sessions blocked_storage = Inr []
   \<and> getSettings reject_settings blocked_storage = Inr None
   \<and> mount parse_sessions reject_settings offline_env blocked_storage initialState
       = Inl SecurityError"
  by (simp add: getActiveSessionId_def getItem_def blocked_storage_def mount_def
        getSessions_def getSettings_def)

section \<open>Default settings at startup\<close>





section \<open>Decoding the speech payload\<close>

lemma sint_16: "sint (w :: 16 word) = (if uint w < 32768 then uint w else uint w - 65536)"
proof -
  have b: "0 \<le> uint w" "uint w < 65536" using uint_lt2p [of w] by simp_all
  have s: "sint w = (uint w + 32768) mod 65536 - 32768"
    by (simp add: sint_uint signed_take_bit_eq_take_bit_shift take_bit_eq_mod)
  show ?thesis
  proof (cases "uint w < 32768")
    case True
    with b have "(uint w + 32768) mod 65536 = uint w + 32768" by simp
    with s True show ?thesis by simp
  next
    case False
    with b have "(uint w + 32768) mod 65536 = uint w + 32768 - 65536"
      by (simp add: mod_pos_geq)
    with s False show ?thesis by simp
  qed
qed

lemma uint_word_cat_16:
  fixes hi lo :: "8 word"
  shows "uint (word_cat hi lo :: 16 word) = uint hi * 256 + uint lo"
proof -
  have hi: "0 \<le> uint hi" "uint hi < 256" and lo: "0 \<le> uint lo" "uint lo < 256"
    using uint_lt2p [of hi] uint_lt2p [of lo] by simp_all
  have l: "uint (ucast lo :: 16 word) = uint lo"
    using lo by (simp add: unsigned_ucast_eq take_bit_eq_mod)
  have h: "uint (ucast hi :: 16 word) = uint hi"
    using hi by (simp add: unsigned_ucast_eq take_bit_eq_mod)
  have "uint (256 * ucast hi :: 16 word) = (256 * uint hi) mod 65536"
    by (simp add: uint_word_ariths h)
  with hi have m: "uint (256 * ucast hi :: 16 word) = 256 * uint hi" by simp
  have "uint (ucast lo + 256 * ucast hi :: 16 word) = (uint lo + 256 * uint hi) mod 65536"
    by (simp add: uint_word_ariths(1) l m)
  with hi lo have "uint (ucast lo + 256 * ucast hi :: 16 word) = uint lo + 256 * uint hi"
    by simp
  moreover have "(word_cat hi lo :: 16 word) = ucast lo + 256 * ucast hi"
    by (simp add: word_cat_eq push_bit_eq_mult)
  ultimately show ?thesis by simp
qed

lemma sint_word_cat_16: "sint (word_cat hi lo :: 16 word) = pcm16 lo hi"
  for hi lo :: "8 word"
proof -
  have "int (unat lo) + 256 * int (unat hi) = uint hi * 256 + uint lo" by simp
  then show ?thesis
    unfolding pcm16_def Let_def sint_16 uint_word_cat_16 by simp
qed

lemma length_Int16_elements: "length (Int16_elements bytes) = length bytes div 2"
  by (induction bytes rule: Int16_elements.induct) simp_all

lemma nth_Int16_elements:
  "i < length bytes div 2 \<Longrightarrow>
     Int16_elements bytes ! i = word_cat (bytes ! (2 * i + 1)) (bytes ! (2 * i))"
proof (induction bytes arbitrary: i rule: Int16_elements.induct)
  case (1 lo hi rest)
  show ?case
  proof (cases i)
    case 0
    then show ?thesis by simp
  next
    case (Suc j)
    with "1.prems" have "j < length rest div 2" by simp
    from "1.IH" [OF this] Suc show ?thesis by simp
  qed
qed simp_all

lemma fold_fill:
  "n \<le> length cd \<Longrightarrow>
     fold (\<lambda>i cd. if i < length cd then cd[i := f i] else cd) [0..<n] cd
       = map f [0..<n] @ drop n cd"
proof (induction n)
  case 0
  then show ?case by simp
next
  case (Suc n)
  then have n: "n < length cd" by simp
  with Suc.IH have ih: "fold (\<lambda>i cd. if i < length cd then cd[i := f i] else cd) [0..<n] cd
       = map f [0..<n] @ drop n cd"
    by simp
  from n have d: "drop n cd = cd ! n # drop (Suc n) cd"
    by (simp add: Cons_nth_drop_Suc)
  have "(map f [0..<n] @ drop n cd)[n := f n] = map f [0..<n] @ f n # drop (Suc n) cd"
    by (simp add: list_update_append d)
  with n show ?case by (simp add: ih)
qed

lemma fill_channel_mono:
  assumes "length cd = length dataInt16"
  shows "fill_channel dataInt16 (Suc 0) 0 cd
         = map (\<lambda>i. real_of_int (sint (dataInt16 ! i)) / 32768) [0..<length dataInt16]"
proof -
  let ?g = "\<lambda>i. real_of_int (sint (dataInt16 ! i)) / 32768"
  have "fill_channel dataInt16 (Suc 0) 0 cd
        = fold (\<lambda>i cd. if i < length cd then cd[i := ?g i] else cd) [0..<length dataInt16] cd"
    by (simp add: fill_channel_def cong: if_cong)
  also have "\<dots> = map ?g [0..<length dataInt16] @ drop (length dataInt16) cd"
    by (rule fold_fill) (simp add: assms)
  finally show ?thesis by (simp add: assms)
qed

lemma sample_range: "- 1 \<le> real_of_int (pcm16 lo hi) / 32768 \<and> real_of_int (pcm16 lo hi) / 32768 \<le> 1"
proof -
  have "- 32768 \<le> sint (word_cat hi lo :: 16 word)" "sint (word_cat hi lo :: 16 word) < 32768"
    using sint_ge [of "word_cat hi lo :: 16 word"] sint_lt [of "word_cat hi lo :: 16 word"]
    by simp_all
  then have "- 32768 \<le> pcm16 lo hi" "pcm16 lo hi \<le> 32768"
    by (simp_all add: sint_word_cat_16)
  then have "- 32768 \<le> real_of_int (pcm16 lo hi)" "real_of_int (pcm16 lo hi) \<le> 32768"
    by linarith+
  then show ?thesis by simp
qed

text \<open>
  C8.  With the default parameters, a payload of an even, non-zero number of bytes is
  decoded to one channel at 24000 Hz whose \<open>i\<close>-th value is the little-endian signed
  16-bit sample of the bytes \<open>2i\<close> and \<open>2i+1\<close>, divided by 32768; every value is in
  \<open>[-1, 1]\<close>.
\<close>

theorem pcm_decoding:
  assumes "even (length data)" and "data \<noteq> []"
  shows "\<exists>buffer. decodeAudioData data None None = Inr buffer
           \<and> numberOfChannels buffer = 1 \<and> sampleRate buffer = 24000
           \<and> channels buffer
               = [map (\<lambda>i. real_of_int (pcm16 (data ! (2 * i)) (data ! (2 * i + 1))) / 32768)
                    [0..<length data div 2]]
           \<and> (\<forall>v \<in> set (concat (channels buffer)). - 1 \<le> v \<and> v \<le> 1)"
proof -
  let ?samples = "Int16_elements data"
  let ?n = "length data div 2"
  from assms have n: "0 < ?n" by (cases data rule: Int16_elements.cases) auto
  have a: "Int16Array data = Inr ?samples" using assms(1) by (simp add: Int16Array_def)
  have c: "createBuffer (Suc 0) ?n 24000
           = Inr \<lparr>numberOfChannels = Suc 0, sampleRate = 24000, channels = [replicate ?n 0]\<rparr>"
    using n by (simp add: createBuffer_def)
  have f: "fill_channel ?samples (Suc 0) 0 (replicate ?n 0)
           = map (\<lambda>i. real_of_int (sint (?samples ! i)) / 32768) [0..<?n]"
    using fill_channel_mono [of "replicate ?n 0" ?samples]
    by (simp add: length_Int16_elements)
  have v: "map (\<lambda>i. real_of_int (sint (?samples ! i)) / 32768) [0..<?n]
           = map (\<lambda>i. real_of_int (pcm16 (data ! (2 * i)) (data ! (2 * i + 1))) / 32768) [0..<?n]"
    by (rule map_cong) (simp_all add: nth_Int16_elements sint_word_cat_16)
  have d: "decodeAudioData data None None
           = Inr \<lparr>numberOfChannels = 1, sampleRate = 24000,
                  channels = [map (\<lambda>i. real_of_int (pcm16 (data ! (2 * i)) (data ! (2 * i + 1))) / 32768)
                    [0..<?n]]\<rparr>"
    using v by (simp add: decodeAudioData_def a c length_Int16_elements f)
  have r: "- 1 \<le> v \<and> v \<le> 1"
    if "v \<in> set (map (\<lambda>i. real_of_int (pcm16 (data ! (2 * i)) (data ! (2 * i + 1))) / 32768)
                    [0..<?n])" for v
  proof -
    from that obtain i where "v = real_of_int (pcm16 (data ! (2 * i)) (data ! (2 * i + 1))) / 32768"
      by auto
    then show ?thesis by (simp only: sample_range)
  qed
  show ?thesis
  proof (rule exI, intro conjI)
    show "decodeAudioData data None None
           = Inr \<lparr>numberOfChannels = 1, sampleRate = 24000,
                  channels = [map (\<lambda>i. real_of_int (pcm16 (data ! (2 * i)) (data ! (2 * i + 1))) / 32768)
                    [0..<?n]]\<rparr>"
      by (rule d)
  qed (use r in simp_all)
qed

theorem pcm_decoding_witness:
  "even (length example_pcm) \<and> example_pcm \<noteq> []
   \<and> (\<exists>buffer. decodeAudioData example_pcm None None = Inr buffer
          \<and> numberOfChannels buffer = 1 \<and> sampleRate buffer = 24000
          \<and> channels buffer = [[- 1, 32767 / 32768]])"
proof -
  have h: "even (length example_pcm)" "example_pcm \<noteq> []"
    by (simp_all add: example_pcm_def)
  have u: "[0..<length example_pcm div 2] = [0, 1]"
    by (simp add: example_pcm_def upt_rec)
  have v: "map (\<lambda>i. real_of_int (pcm16 (example_pcm ! (2 * i)) (example_pcm ! (2 * i + 1))) / 32768)
             [0..<length example_pcm div 2] = [- 1, 32767 / 32768]"
    unfolding u by (simp add: example_pcm_def pcm16_def)
  from pcm_decoding [OF h] obtain buffer where
    "decodeAudioData example_pcm None None = Inr buffer"
    "numberOfChannels buffer = 1" "sampleRate buffer = 24000"
    "channels buffer
       = [map (\<lambda>i. real_of_int (pcm16 (example_pcm ! (2 * i)) (example_pcm ! (2 * i + 1))) / 32768)
            [0..<length example_pcm div 2]]"
    by blast
  with v have "\<exists>buffer. decodeAudioData example_pcm None None = Inr buffer
          \<and> numberOfChannels buffer = 1 \<and> sampleRate buffer = 24000
          \<and> channels buffer = [[- 1, 32767 / 32768]]"
    by simp
  with h show ?thesis by simp
qed

section \<open>Structured-insight extraction: the first match\<close>

declare matchAll.simps [simp del] replaceAll.simps [simp del]























section \<open>Saving the sessions and loading them again\<close>

subsection \<open>Strings\<close>

lemma unat_of_nat_16: "n < 65536 \<Longrightarrow> unat (of_nat n :: 16 word) = n"
  by (simp add: unat_of_nat take_bit_nat_eq_self)

lemma unat_16_bound: "unat (c :: 16 word) < 65536"
  using unsigned_less [of c, where 'a = nat] by simp

lemma hex_parts:
  "((n div 4096 * 16 + n div 256 mod 16) * 16 + n div 16 mod 16) * 16 + n mod 16 = (n::nat)"
proof -
  have a: "n div 4096 = n div 256 div 16" and b: "n div 256 = n div 16 div 16"
    by (simp_all add: div_mult2_eq [symmetric])
  have "n div 4096 * 16 + n div 256 mod 16 = n div 256"
    unfolding a by (rule div_mult_mod_eq)
  moreover have "n div 256 * 16 + n div 16 mod 16 = n div 16"
    unfolding b by (rule div_mult_mod_eq)
  moreover have "n div 16 * 16 + n mod 16 = n"
    by (rule div_mult_mod_eq)
  ultimately show ?thesis by simp
qed

lemma hex_top: "n < 65536 \<Longrightarrow> n div 4096 < (16::nat)"
  by (simp add: less_mult_imp_div_less)

lemma unhex_hex_digit: "k < 16 \<Longrightarrow> unhex (hex_digit k) = Some k"
proof -
  assume k: "k < 16"
  let ?m = "if k < 10 then 48 + k else 87 + k"
  have m: "unat (of_nat ?m :: 16 word) = ?m"
    using k by (intro unat_of_nat_16) simp
  have "unhex (of_nat ?m) = Some k"
    unfolding unhex_def word_le_nat_alt m using k by simp
  then show ?thesis by (simp add: hex_digit_def)
qed

lemma parse_chars_unicode_escape:
  "parse_chars (unicode_escape c @ rest)
     = map_option (\<lambda>(t, r). (c # t, r)) (parse_chars rest)"
proof -
  let ?n = "unat c"
  have n: "?n < 65536" by (rule unat_16_bound)
  have h: "unhex (hex_digit (?n div 4096)) = Some (?n div 4096)"
    "unhex (hex_digit (?n div 256 mod 16)) = Some (?n div 256 mod 16)"
    "unhex (hex_digit (?n div 16 mod 16)) = Some (?n div 16 mod 16)"
    "unhex (hex_digit (?n mod 16)) = Some (?n mod 16)"
    using hex_top [OF n] by (simp_all add: unhex_hex_digit)
  have c: "hex4 (?n div 4096) (?n div 256 mod 16) (?n div 16 mod 16) (?n mod 16) = c"
    unfolding hex4_def by (simp only: hex_parts) simp
  show ?thesis
    unfolding unicode_escape_def
    by (simp add: h c BACKSLASH_def QUOTE_def)
qed

lemma parse_chars_escape_unit:
  "parse_chars (escape_unit c @ rest)
     = map_option (\<lambda>(t, r). (c # t, r)) (parse_chars rest)"
proof (cases "c < 0x20 \<or> is_high_surrogate c \<or> is_low_surrogate c
              \<or> c = QUOTE \<or> c = BACKSLASH")
  case False
  then have "escape_unit c = [c]"
    by (auto simp: escape_unit_def)
  with False show ?thesis by simp
next
  case True
  then show ?thesis
    by (auto simp: escape_unit_def parse_chars_unicode_escape unescape_def
          BACKSLASH_def QUOTE_def)
qed

lemma surrogate_plain:
  assumes "is_high_surrogate c \<or> is_low_surrogate c"
  shows "c \<noteq> QUOTE" "c \<noteq> BACKSLASH" "\<not> c < 0x20"
  using assms
  unfolding is_high_surrogate_def is_low_surrogate_def QUOTE_def BACKSLASH_def
    word_le_nat_alt word_less_nat_alt
  by auto

lemma parse_chars_plain:
  "c \<noteq> QUOTE \<Longrightarrow> c \<noteq> BACKSLASH \<Longrightarrow> \<not> c < 0x20 \<Longrightarrow>
     parse_chars (c # cs) = map_option (\<lambda>(t, r). (c # t, r)) (parse_chars cs)"
  by simp

lemma parse_chars_escape: "parse_chars (escape s @ QUOTE # rest) = Some (s, rest)"
proof (induction s rule: escape.induct)
  case 1
  show ?case by simp
next
  case (2 c)
  show ?case by (simp add: parse_chars_escape_unit)
next
  case (3 c d rest')
  show ?case
  proof (cases "is_high_surrogate c \<and> is_low_surrogate d")
    case True
    then have e: "escape (c # d # rest') = c # d # escape rest'" by simp
    from True have c: "c \<noteq> QUOTE" "c \<noteq> BACKSLASH" "\<not> c < 0x20"
      and d: "d \<noteq> QUOTE" "d \<noteq> BACKSLASH" "\<not> d < 0x20"
      using surrogate_plain [of c] surrogate_plain [of d] by simp_all
    from "3.IH"(1) [OF True] have ih: "parse_chars (escape rest' @ QUOTE # rest) = Some (rest', rest)" .
    show ?thesis
      unfolding e append_Cons parse_chars_plain [OF c] parse_chars_plain [OF d] ih by simp
  next
    case False
    then have e: "escape (c # d # rest') = escape_unit c @ escape (d # rest')" by auto
    from "3.IH"(2) [OF False]
    have ih: "parse_chars (escape (d # rest') @ QUOTE # rest) = Some (d # rest', rest)" .
    show ?thesis
      unfolding e append_assoc parse_chars_escape_unit ih by simp
  qed
qed

lemma parse_chars_quoted:
  "parse_chars (tl (QuoteJSONString s) @ rest) = Some (s, rest)"
  by (simp add: QuoteJSONString_def parse_chars_escape)

subsection \<open>Numbers\<close>

lemma digit_unat: "n < 10 \<Longrightarrow> unat (0x30 + of_nat n :: 16 word) = 48 + n"
proof -
  assume n: "n < 10"
  have "(0x30 + of_nat n :: 16 word) = of_nat (48 + n)" by simp
  also have "unat \<dots> = 48 + n" using n by (intro unat_of_nat_16) simp
  finally show ?thesis .
qed

lemma digit_is_digit: "n < 10 \<Longrightarrow> is_digit (0x30 + of_nat n)"
  unfolding is_digit_def word_le_nat_alt by (simp add: digit_unat)

lemma digit_zero: "n < 10 \<Longrightarrow> (0x30 + of_nat n :: 16 word) = 0x30 \<Longrightarrow> n = 0"
proof -
  assume "n < 10" and "(0x30 + of_nat n :: 16 word) = 0x30"
  then have "unat (0x30 + of_nat n :: 16 word) = unat (0x30 :: 16 word)" by simp
  with \<open>n < 10\<close> show ?thesis by (simp add: digit_unat)
qed

lemma digits_nonempty: "digits n \<noteq> []"
  by (subst digits.simps) simp

lemma digits_all: "c \<in> set (digits n) \<Longrightarrow> is_digit c"
proof (induction n arbitrary: c rule: digits.induct)
  case (1 n)
  show ?case
  proof (cases "n < 10")
    case True
    with "1.prems" show ?thesis by (simp add: digits.simps [of n] digit_is_digit)
  next
    case False
    with "1.prems" have "c \<in> set (digits (n div 10)) \<or> c = 0x30 + of_nat (n mod 10)"
      by (auto simp: digits.simps [of n])
    with "1.IH" [OF False] show ?thesis
      by (auto simp: digit_is_digit)
  qed
qed

lemma digits_value_snoc: "digits_value (ds @ [d]) = 10 * digits_value ds + (unat d - 48)"
  by (simp add: digits_value_def)

lemma digits_value_digits: "digits_value (digits n) = n"
proof (induction n rule: digits.induct)
  case (1 n)
  show ?case
  proof (cases "n < 10")
    case True
    then show ?thesis by (simp add: digits.simps [of n] digits_value_def digit_unat)
  next
    case False
    have "digits_value (digits n) = 10 * digits_value (digits (n div 10))
            + (unat (0x30 + of_nat (n mod 10) :: 16 word) - 48)"
      using False by (simp add: digits.simps [of n] digits_value_snoc)
    with "1.IH" [OF False] show ?thesis by (simp add: digit_unat)
  qed
qed

lemma digits_hd_zero: "hd (digits n) = 0x30 \<Longrightarrow> n = 0"
proof (induction n rule: digits.induct)
  case (1 n)
  show ?case
  proof (cases "n < 10")
    case True
    with "1.prems" show ?thesis by (simp add: digits.simps [of n] digit_zero)
  next
    case False
    with "1.prems" have "hd (digits (n div 10)) = 0x30"
      by (simp add: digits.simps [of n] digits_nonempty)
    from "1.IH" [OF False this] False show ?thesis by simp
  qed
qed

lemma digits_no_leading_zero: "\<not> (1 < length (digits n) \<and> hd (digits n) = 0x30)"
proof
  assume a: "1 < length (digits n) \<and> hd (digits n) = 0x30"
  then have "n = 0" by (simp add: digits_hd_zero)
  with a show False by (simp add: digits.simps [of 0])
qed

lemma takeWhile_digits:
  assumes "number_end rest"
  shows "takeWhile is_digit (digits n @ rest) = digits n"
    and "dropWhile is_digit (digits n @ rest) = rest"
proof -
  from assms have t: "takeWhile is_digit rest = []" and d: "dropWhile is_digit rest = rest"
    by (cases rest; simp add: number_end_def)+
  show "takeWhile is_digit (digits n @ rest) = digits n"
    by (simp add: takeWhile_append2 digits_all t)
  show "dropWhile is_digit (digits n @ rest) = rest"
    by (simp add: dropWhile_append2 digits_all d)
qed

lemma digits_not_minus: "hd (digits n) \<noteq> 0x2D"
proof -
  from digits_nonempty [of n] have "hd (digits n) \<in> set (digits n)" by simp
  then have "is_digit (hd (digits n))" by (rule digits_all)
  then show ?thesis unfolding is_digit_def word_le_nat_alt by auto
qed

lemma parse_number_toString:
  assumes "number_end rest"
  shows "parse_number (number_toString i @ rest) = Some (i, rest)"
proof (cases "i < 0")
  case True
  then have s: "number_toString i @ rest = 0x2D # digits (nat (- i)) @ rest"
    by (simp add: number_toString_def)
  from True have v: "- int (nat (- i)) = i" by simp
  show ?thesis
    unfolding s parse_number_def
    using assms digits_no_leading_zero [of "nat (- i)"] v
    by (auto simp: Let_def takeWhile_digits digits_nonempty digits_value_digits number_end_def)
next
  case False
  then have s: "number_toString i @ rest = digits (nat i) @ rest"
    by (simp add: number_toString_def)
  have h: "hd (digits (nat i) @ rest) \<noteq> 0x2D"
    using digits_not_minus [of "nat i"] digits_nonempty [of "nat i"] by simp
  from False have v: "int (nat i) = i" by simp
  show ?thesis
    unfolding s parse_number_def
    using assms digits_no_leading_zero [of "nat i"] v h
    by (auto simp: Let_def takeWhile_digits digits_nonempty digits_value_digits number_end_def)
qed

subsection \<open>Values\<close>

lemma value_end_number_end: "value_end rest \<Longrightarrow> number_end rest"
  unfolding value_end_def number_end_def is_digit_def COMMA_def RBRACKET_def RBRACE_def
  by (auto simp: word_le_nat_alt)

lemma value_end_simps [simp]:
  "value_end []" "value_end (COMMA # r)" "value_end (RBRACKET # r)" "value_end (RBRACE # r)"
  by (simp_all add: value_end_def)

lemma skip_ws_start: "value_start c \<Longrightarrow> skip_ws (c # cs) = c # cs"
  by (simp add: skip_ws_def value_start_def)

lemma skip_ws_punct [simp]:
  "skip_ws (COMMA # r) = COMMA # r" "skip_ws (RBRACKET # r) = RBRACKET # r"
  "skip_ws (RBRACE # r) = RBRACE # r" "skip_ws (COLON # r) = COLON # r"
  "skip_ws (QUOTE # r) = QUOTE # r" "skip_ws [] = []"
  by (simp_all add: skip_ws_def is_ws_def COMMA_def RBRACKET_def RBRACE_def COLON_def QUOTE_def)

lemma punct_distinct [simp]:
  "RBRACKET \<noteq> COMMA" "RBRACE \<noteq> COMMA" "QUOTE \<noteq> RBRACE" "QUOTE \<noteq> RBRACKET"
  "LBRACKET \<noteq> LBRACE" "QUOTE \<noteq> LBRACE" "QUOTE \<noteq> LBRACKET"
  by (simp_all add: COMMA_def RBRACKET_def RBRACE_def QUOTE_def LBRACE_def LBRACKET_def)

lemma number_toString_hd:
  "\<exists>c cs. number_toString i = c # cs \<and> (c = 0x2D \<or> is_digit c)"
proof (cases "i < 0")
  case True
  then show ?thesis by (simp add: number_toString_def)
next
  case False
  from digits_nonempty [of "nat i"] obtain c cs where d: "digits (nat i) = c # cs"
    by (cases "digits (nat i)") auto
  then have "c \<in> set (digits (nat i))" by simp
  then have "is_digit c" by (rule digits_all)
  with d False show ?thesis by (simp add: number_toString_def)
qed

lemma number_char:
  assumes "c = 0x2D \<or> is_digit c"
  shows "value_start c" "c \<noteq> LBRACE" "c \<noteq> LBRACKET" "c \<noteq> QUOTE"
    "c \<noteq> 0x74" "c \<noteq> 0x66" "c \<noteq> 0x6E"
  using assms
  unfolding value_start_def is_ws_def is_digit_def LBRACE_def LBRACKET_def QUOTE_def
    RBRACKET_def RBRACE_def word_le_nat_alt
  by auto

lemma parse_value_number:
  assumes "c = 0x2D \<or> is_digit c"
  shows "parse_value (Suc n) (c # cs)
         = map_option (\<lambda>(i, r). (JNumber i, r)) (parse_number (c # cs))"
  using number_char [OF assms]
  by (simp add: skip_ws_start ascii_def)

lemma stringify_start: "\<exists>c cs. JSON_stringify j = c # cs \<and> value_start c"
proof (cases j)
  case JNull
  then show ?thesis
    by (simp add: ascii_def value_start_def is_ws_def RBRACKET_def RBRACE_def)
next
  case (JBool b)
  then show ?thesis
    by (simp add: ascii_def value_start_def is_ws_def RBRACKET_def RBRACE_def)
next
  case (JNumber i)
  with number_toString_hd [of i] number_char(1) show ?thesis by auto
next
  case (JString t)
  then show ?thesis
    by (simp add: QuoteJSONString_def value_start_def is_ws_def QUOTE_def RBRACKET_def RBRACE_def)
next
  case (JArray xs)
  then show ?thesis
    by (simp add: value_start_def is_ws_def LBRACKET_def RBRACKET_def RBRACE_def)
next
  case (JObject kvs)
  then show ?thesis
    by (simp add: value_start_def is_ws_def LBRACE_def RBRACKET_def RBRACE_def)
qed

lemma round_tripsD:
  "round_trips j \<Longrightarrow> length (JSON_stringify j) \<le> n \<Longrightarrow> value_end rest \<Longrightarrow>
     parse_value n (JSON_stringify j @ rest) = Some (j, rest)"
  by (simp add: round_trips_def)

lemma parse_elements_join:
  assumes "\<And>x. x \<in> set xs \<Longrightarrow> round_trips x" and "xs \<noteq> []"
    and "length (join_comma (map JSON_stringify xs)) < m"
  shows "parse_elements m (join_comma (map JSON_stringify xs) @ RBRACKET # rest) = Some (xs, rest)"
  using assms
proof (induction xs arbitrary: m rule: induct_list012)
  case 1
  then show ?case by simp
next
  case (2 x)
  from "2.prems"(3) obtain m' where m: "m = Suc m'" "length (JSON_stringify x) \<le> m'"
    by (cases m) auto
  from "2.prems"(1) have "round_trips x" by simp
  from round_tripsD [OF this m(2), of "RBRACKET # rest"]
  have "parse_value m' (JSON_stringify x @ RBRACKET # rest) = Some (x, RBRACKET # rest)" by simp
  then show ?case by (simp add: m(1))
next
  case (3 x y ys)
  let ?tail = "join_comma (map JSON_stringify (y # ys))"
  from "3.prems"(3) obtain m' where m: "m = Suc m'" "length (JSON_stringify x) \<le> m'"
    "length ?tail < m'"
    by (cases m) auto
  from "3.prems"(1) have "round_trips x" by simp
  from round_tripsD [OF this m(2), of "COMMA # ?tail @ RBRACKET # rest"]
  have v: "parse_value m' (JSON_stringify x @ COMMA # ?tail @ RBRACKET # rest)
           = Some (x, COMMA # ?tail @ RBRACKET # rest)" by simp
  have "parse_elements m' (?tail @ RBRACKET # rest) = Some (y # ys, rest)"
    using "3.prems"(1) m(3) by (intro "3.IH"(2)) simp_all
  with v show ?case by (simp add: m(1))
qed

lemma stringify_object:
  "JSON_stringify (JObject kvs) = LBRACE # join_comma (map member kvs) @ [RBRACE]"
proof -
  have "(\<lambda>(k, v). QuoteJSONString k @ COLON # JSON_stringify v) = member"
    by (auto simp: member_def)
  then show ?thesis by simp
qed

lemma parse_member:
  assumes "round_trips (snd kv)" and "length (member kv) \<le> m'" and "value_end rest"
  shows "parse_chars (tl (member kv) @ rest)
           = Some (fst kv, COLON # JSON_stringify (snd kv) @ rest)"
    and "parse_value m' (JSON_stringify (snd kv) @ rest) = Some (snd kv, rest)"
proof -
  show "parse_chars (tl (member kv) @ rest)
           = Some (fst kv, COLON # JSON_stringify (snd kv) @ rest)"
    by (simp add: member_def QuoteJSONString_def parse_chars_escape)
  from assms(2) have "length (JSON_stringify (snd kv)) \<le> m'"
    by (simp add: member_def)
  from round_tripsD [OF assms(1) this assms(3)]
  show "parse_value m' (JSON_stringify (snd kv) @ rest) = Some (snd kv, rest)" .
qed

lemma member_Cons: "member kv = QUOTE # tl (member kv)"
  by (simp add: member_def QuoteJSONString_def)

lemma parse_members_join:
  assumes "\<And>kv. kv \<in> set kvs \<Longrightarrow> round_trips (snd kv)" and "kvs \<noteq> []"
    and "length (join_comma (map member kvs)) < m"
  shows "parse_members m (join_comma (map member kvs) @ RBRACE # rest) = Some (kvs, rest)"
  using assms
proof (induction kvs arbitrary: m rule: induct_list012)
  case 1
  then show ?case by simp
next
  case (2 kv)
  from "2.prems"(3) obtain m' where m: "m = Suc m'" "length (member kv) \<le> m'"
    by (cases m) auto
  from "2.prems"(1) have r: "round_trips (snd kv)" by simp
  define t where "t = tl (member kv)"
  have mk: "member kv = QUOTE # t" unfolding t_def by (rule member_Cons)
  note p = parse_member [OF r m(2), of "RBRACE # rest", folded t_def]
  show ?case using p by (simp add: m(1) mk)
next
  case (3 kv y ys)
  let ?tail = "join_comma (map member (y # ys))"
  from "3.prems"(3) obtain m' where m: "m = Suc m'" "length (member kv) \<le> m'"
    "length ?tail < m'"
    by (cases m) auto
  from "3.prems"(1) have r: "round_trips (snd kv)" by simp
  define t where "t = tl (member kv)"
  have mk: "member kv = QUOTE # t" unfolding t_def by (rule member_Cons)
  note p = parse_member [OF r m(2), of "COMMA # ?tail @ RBRACE # rest", folded t_def]
  have ih: "parse_members m' (?tail @ RBRACE # rest) = Some (y # ys, rest)"
    using "3.prems"(1) m(3) by (intro "3.IH"(2)) simp_all
  show ?case using p ih by (simp add: m(1) mk)
qed

lemma fold_update_fresh:
  "distinct (map fst kvs) \<Longrightarrow> fst ` set kvs \<inter> fst ` set acc = {} \<Longrightarrow>
     fold (\<lambda>(k, v) acc. AList.update k v acc) kvs acc = acc @ kvs"
proof (induction kvs arbitrary: acc)
  case Nil
  show ?case by simp
next
  case (Cons kv kvs)
  obtain k v where kv: "kv = (k, v)" by (cases kv)
  from Cons.prems kv have fresh: "k \<notin> fst ` set acc" by auto
  have u: "AList.update k v acc = acc @ [(k, v)]"
    using fresh by (induction acc) auto
  have "fold (\<lambda>(k, v) acc. AList.update k v acc) kvs (acc @ [(k, v)]) = (acc @ [(k, v)]) @ kvs"
    using Cons.prems kv by (intro Cons.IH) auto
  then show ?case by (simp add: kv u)
qed

lemma last_wins_distinct: "distinct (map fst kvs) \<Longrightarrow> last_wins kvs = kvs"
  using fold_update_fresh [of kvs "[]"] by (simp add: last_wins_def)

lemma join_elements_start:
  "xs \<noteq> [] \<Longrightarrow> \<exists>c cs. join_comma (map JSON_stringify xs) = c # cs \<and> value_start c"
proof (induction xs rule: induct_list012)
  case 1
  then show ?case by simp
next
  case (2 x)
  from stringify_start [of x] show ?case by simp
next
  case (3 x y ys)
  from stringify_start [of x] show ?case by auto
qed

lemma join_members_start:
  "kvs \<noteq> [] \<Longrightarrow> \<exists>cs. join_comma (map member kvs) = QUOTE # cs"
proof (induction kvs rule: induct_list012)
  case 1
  then show ?case by simp
next
  case (2 kv)
  obtain t where "member kv = QUOTE # t" using member_Cons [of kv] by blast
  then show ?case by simp
next
  case (3 kv y ys)
  obtain t where "member kv = QUOTE # t" using member_Cons [of kv] by blast
  then show ?case by simp
qed

lemma value_start_punct [simp]: "value_start LBRACKET" "value_start LBRACE" "value_start QUOTE"
  by (simp_all add: value_start_def is_ws_def LBRACKET_def LBRACE_def QUOTE_def
        RBRACKET_def RBRACE_def)

lemma round_trips_array:
  assumes "\<And>x. x \<in> set xs \<Longrightarrow> round_trips x"
  shows "round_trips (JArray xs)"
  unfolding round_trips_def
proof (intro allI impI)
  fix n rest
  assume len: "length (JSON_stringify (JArray xs)) \<le> n" and "value_end rest"
  then obtain m where n: "n = Suc m" "length (join_comma (map JSON_stringify xs)) < m"
    by (cases n) auto
  show "parse_value n (JSON_stringify (JArray xs) @ rest) = Some (JArray xs, rest)"
  proof (cases "xs = []")
    case True
    then show ?thesis by (simp add: n(1) skip_ws_start)
  next
    case False
    from join_elements_start [OF False] obtain c cs where
      j: "join_comma (map JSON_stringify xs) = c # cs" and c: "value_start c" by blast
    from parse_elements_join [OF assms False n(2), of rest]
    have e: "parse_elements m (c # cs @ RBRACKET # rest) = Some (xs, rest)" by (simp add: j)
    from c have "c \<noteq> RBRACKET" by (simp add: value_start_def)
    with c e show ?thesis by (simp add: n(1) skip_ws_start j)
  qed
qed

lemma round_trips_object:
  assumes "\<And>kv. kv \<in> set kvs \<Longrightarrow> round_trips (snd kv)" and "distinct (map fst kvs)"
  shows "round_trips (JObject kvs)"
  unfolding round_trips_def
proof (intro allI impI)
  fix n rest
  assume len: "length (JSON_stringify (JObject kvs)) \<le> n" and "value_end rest"
  from len have "length (LBRACE # join_comma (map member kvs) @ [RBRACE]) \<le> n"
    by (simp only: stringify_object)
  then obtain m where n: "n = Suc m" "length (join_comma (map member kvs)) < m"
    by (cases n) auto
  show "parse_value n (JSON_stringify (JObject kvs) @ rest) = Some (JObject kvs, rest)"
  proof (cases "kvs = []")
    case True
    then show ?thesis by (simp add: n(1) skip_ws_start)
  next
    case False
    from join_members_start [OF False] obtain cs where
      j: "join_comma (map member kvs) = QUOTE # cs" by blast
    from parse_members_join [OF assms(1) False n(2), of rest]
    have e: "parse_members m (QUOTE # cs @ RBRACE # rest) = Some (kvs, rest)" by (simp add: j)
    then show ?thesis
      by (simp add: n(1) skip_ws_start stringify_object j last_wins_distinct [OF assms(2)]
            del: JSON_stringify.simps)
  qed
qed

lemma round_trips_atoms:
  "round_trips JNull" "round_trips (JBool b)" "round_trips (JNumber i)" "round_trips (JString t)"
proof -
  show "round_trips JNull"
    unfolding round_trips_def
  proof (intro allI impI)
    fix n :: nat and rest
    assume "length (JSON_stringify JNull) \<le> n"
    then obtain m where "n = Suc m" by (cases n) (auto simp: ascii_def)
    then show "parse_value n (JSON_stringify JNull @ rest) = Some (JNull, rest)"
      by (simp add: ascii_def skip_ws_def is_ws_def LBRACE_def LBRACKET_def QUOTE_def)
  qed
  show "round_trips (JBool b)"
    unfolding round_trips_def
  proof (intro allI impI)
    fix n :: nat and rest
    assume "length (JSON_stringify (JBool b)) \<le> n"
    then obtain m where "n = Suc m" by (cases n; cases b) (auto simp: ascii_def)
    then show "parse_value n (JSON_stringify (JBool b) @ rest) = Some (JBool b, rest)"
      by (cases b)
         (simp_all add: ascii_def skip_ws_def is_ws_def LBRACE_def LBRACKET_def QUOTE_def)
  qed
  show "round_trips (JNumber i)"
    unfolding round_trips_def
  proof (intro allI impI)
    fix n :: nat and rest
    assume len: "length (JSON_stringify (JNumber i)) \<le> n" and e: "value_end rest"
    from number_toString_hd [of i] obtain c cs where
      s: "number_toString i = c # cs" and c: "c = 0x2D \<or> is_digit c" by blast
    from len s obtain m where n: "n = Suc m" by (cases n) auto
    have "parse_value (Suc m) (c # cs @ rest)
          = map_option (\<lambda>(i, r). (JNumber i, r)) (parse_number (c # cs @ rest))"
      using c by (rule parse_value_number)
    also have "parse_number (c # cs @ rest) = Some (i, rest)"
      using parse_number_toString [OF value_end_number_end [OF e], of i] by (simp add: s)
    finally show "parse_value n (JSON_stringify (JNumber i) @ rest) = Some (JNumber i, rest)"
      by (simp add: n s)
  qed
  show "round_trips (JString t)"
    unfolding round_trips_def
  proof (intro allI impI)
    fix n :: nat and rest
    assume "length (JSON_stringify (JString t)) \<le> n"
    then obtain m where "n = Suc m" by (cases n) (auto simp: QuoteJSONString_def)
    then show "parse_value n (JSON_stringify (JString t) @ rest) = Some (JString t, rest)"
      by (simp add: QuoteJSONString_def skip_ws_start parse_chars_escape)
  qed
qed

lemma wf_round_trips: "wf_json j \<Longrightarrow> round_trips j"
proof (induction j)
  case (JArray xs)
  show ?case
  proof (rule round_trips_array)
    fix x assume "x \<in> set xs"
    with JArray show "round_trips x" by simp
  qed
next
  case (JObject kvs)
  show ?case
  proof (rule round_trips_object)
    fix kv assume kv: "kv \<in> set kvs"
    with JObject.prems have "wf_json (snd kv)" by simp
    with JObject.IH [OF kv, of "snd kv"] show "round_trips (snd kv)"
      by (cases kv) simp
  next
    from JObject.prems show "distinct (map fst kvs)" by simp
  qed
qed (simp_all add: round_trips_atoms)

lemma JSON_round_trip: "wf_json j \<Longrightarrow> JSON_parse (JSON_stringify j) = Some j"
proof -
  assume "wf_json j"
  then have "round_trips j" by (rule wf_round_trips)
  from round_tripsD [OF this, of "Suc (length (JSON_stringify j))" "[]"]
  show ?thesis by (simp add: JSON_parse_def)
qed

lemma JSON_stringify_nonempty: "JSON_stringify j \<noteq> []"
  using stringify_start [of j] by auto

subsection \<open>Sessions\<close>

lemma ascii_eq_iff [simp]: "ascii a = ascii b \<longleftrightarrow> a = b"
proof -
  have "inj (\<lambda>c. of_nat (of_char c) :: 16 word)"
  proof (rule injI)
    fix x y :: char
    assume e: "(of_nat (of_char x) :: 16 word) = of_nat (of_char y)"
    have b: "of_char x < (65536::nat)" "of_char y < (65536::nat)"
      by (rule less_trans [OF nat_of_char_less_256], simp)+
    from e have "unat (of_nat (of_char x) :: 16 word) = unat (of_nat (of_char y) :: 16 word)"
      by simp
    with b have "(of_char x :: nat) = of_char y" by (simp add: unat_of_nat_16)
    then show "x = y" by simp
  qed
  then show ?thesis by (simp add: ascii_def inj_map_eq_map)
qed

lemma those_list_map:
  "(\<And>x. f (g x) = Some x) \<Longrightarrow> those_list (map (f \<circ> g) xs) = Some xs"
  by (induction xs) simp_all

lemma source_round_trip: "source_of_json (json_of_source g) = Some g"
  by (cases g; cases "g_title g"; cases "g_uri g")
     (simp_all add: source_of_json_def json_of_source_def optional_def as_optional_def
        as_string_def)

lemma wf_source: "wf_json (json_of_source g)"
  by (cases "g_title g"; cases "g_uri g") (simp_all add: json_of_source_def optional_def)

lemma sources_round_trip:
  "as_array source_of_json (Some (JArray (map json_of_source gs))) = Some gs"
  by (simp add: as_array_def those_list_map source_round_trip)

lemma role_round_trip: "as_role (Some (json_of_role r)) = Some r"
  by (cases r) (simp_all add: as_role_def json_of_role_def as_string_def)

lemma message_round_trip: "message_of_json (json_of_message m) = Some m"
proof (cases m)
  case (fields i r t ts a im p l g)
  show ?thesis
    unfolding fields
    by (cases a; cases im; cases p; cases l; cases g)
       (simp_all add: message_of_json_def json_of_message_def optional_def as_optional_def
          as_string_def as_number_def role_round_trip sources_round_trip)
qed

lemma wf_message: "wf_json (json_of_message m)"
  by (cases "m_audioUrl m"; cases "m_imageUrl m"; cases "m_psychAnalysis m";
      cases "m_language m"; cases "m_groundingSources m")
     (simp_all add: json_of_message_def optional_def json_of_role_def wf_source)

lemma messages_round_trip:
  "as_array message_of_json (Some (JArray (map json_of_message ms))) = Some ms"
  by (simp add: as_array_def those_list_map message_round_trip)

lemma session_round_trip: "session_of_json (json_of_session s) = Some s"
  by (cases s)
     (simp add: session_of_json_def json_of_session_def as_string_def as_number_def
        messages_round_trip)

lemma wf_session: "wf_json (json_of_session s)"
  by (simp add: json_of_session_def wf_message)

lemma sessions_round_trip: "sessions_of_json (json_of_sessions ss) = Some ss"
  by (simp add: sessions_of_json_def json_of_sessions_def as_array_def those_list_map
        session_round_trip)

lemma wf_sessions: "wf_json (json_of_sessions ss)"
  by (simp add: json_of_sessions_def wf_session)

lemma parse_stringify_sessions:
  "parse_sessions (JSON_stringify (json_of_sessions ss)) = Inr ss"
  by (simp add: parse_sessions_def JSON_round_trip [OF wf_sessions] sessions_round_trip)

lemma getItem_setItem:
  "setItem ls key v = Inr ls' \<Longrightarrow> getItem ls' key = Inr (Some v)"
proof -
  assume a: "setItem ls key v = Inr ls'"
  then have "\<not> denied ls" and "ls' = ls\<lparr>items := AList.update key v (items ls)\<rparr>"
    by (simp_all add: setItem_def split: if_splits)
  then show ?thesis by (simp add: getItem_def update_conv')
qed

text \<open>
  C7, as the code has it.  When the storage accepts the write, saving a session collection
  and loading it yields the collection that was saved: every session and every message
  of it, with all their fields (so also by id, role, text and timestamp).
\<close>

theorem save_then_load:
  assumes "setItem ls SESSIONS_KEY (JSON_stringify (json_of_sessions ss)) = Inr ls'"
  shows "saveSessions stringify_sessions ls ss = Inr ls'
       \<and> getSessions parse_sessions ls' = Inr ss"
proof
  from assms show "saveSessions stringify_sessions ls ss = Inr ls'"
    by (simp add: saveSessions_def stringify_sessions_def)
  from getItem_setItem [OF assms]
  show "getSessions parse_sessions ls' = Inr ss"
    by (simp add: getSessions_def JSON_stringify_nonempty parse_stringify_sessions)
qed

lemma example_text:
  "JSON_stringify (json_of_sessions example_sessions)
   = ascii ''[{\"id\":\"1\",\"title\":\"Hello\",\"messages\":[{\"id\":\"7\",\"role\":\"user\",\"text\":\"Hello\",\"timestamp\":7}],\"createdAt\":1},{\"id\":\"2\",\"title\":\"New Conversation\",\"messages\":[],\"createdAt\":2}]''"
  by (simp add: json_of_sessions_def json_of_session_def json_of_message_def optional_def
        json_of_role_def example_sessions_def QuoteJSONString_def escape_unit_def
        is_high_surrogate_def is_low_surrogate_def number_toString_def digits.simps
        ascii_def QUOTE_def BACKSLASH_def COMMA_def COLON_def LBRACKET_def RBRACKET_def
        LBRACE_def RBRACE_def)

theorem save_then_load_witness:
  "setItem empty_storage SESSIONS_KEY (JSON_stringify (json_of_sessions example_sessions))
     = Inr (empty_storage\<lparr>items :=
              [(SESSIONS_KEY, JSON_stringify (json_of_sessions example_sessions))]\<rparr>)
   \<and> getSessions parse_sessions
        (empty_storage\<lparr>items :=
           [(SESSIONS_KEY, JSON_stringify (json_of_sessions example_sessions))]\<rparr>)
       = Inr example_sessions"
proof -
  have "length (JSON_stringify (json_of_sessions example_sessions)) = 175"
    unfolding example_text by (simp add: ascii_def)
  moreover have "length SESSIONS_KEY = 16" by (simp add: SESSIONS_KEY_def ascii_def)
  ultimately have h: "setItem empty_storage SESSIONS_KEY (JSON_stringify (json_of_sessions example_sessions))
     = Inr (empty_storage\<lparr>items :=
              [(SESSIONS_KEY, JSON_stringify (json_of_sessions example_sessions))]\<rparr>)"
    by (simp add: setItem_def empty_storage_def used_def)
  from h save_then_load [OF h] show ?thesis by simp
qed

text \<open>
  Without the condition the claim fails: \<open>saveSessions\<close> catches the
  \<open>QuotaExceededError\<close> of a storage that is full and returns normally, and what is
  loaded afterwards is not what was saved.
\<close>

theorem save_then_load_counterexample:
  "saveSessions stringify_sessions full_storage example_sessions = Inr full_storage
   \<and> getSessions parse_sessions full_storage = Inr []
   \<and> example_sessions \<noteq> []"
proof (intro conjI)
  have "length SESSIONS_KEY = 16" by (simp add: SESSIONS_KEY_def ascii_def)
  then have "setItem full_storage SESSIONS_KEY (JSON_stringify (json_of_sessions example_sessions))
        = Inl QuotaExceededError"
    by (simp add: setItem_def full_storage_def used_def)
  then show "saveSessions stringify_sessions full_storage example_sessions = Inr full_storage"
    by (simp add: saveSessions_def stringify_sessions_def)
  show "getSessions parse_sessions full_storage = Inr []"
    by (simp add: getSessions_def getItem_def full_storage_def)
  show "example_sessions \<noteq> []" by (simp add: example_sessions_def)
qed

end
